theory Spec2Isabelle
  imports Main "HOL-Library.Word"
begin

section \<open>Music Tab Finder: the front end (app.js)\<close>

text \<open>
  The repository's program is the browser front end \<^verbatim>\<open>app.js\<close>. Two versions of
  the file are present; the later one adds the GitHub Pages mode and share links, and the
  functions modelled here (\<^verbatim>\<open>selectType\<close>, \<^verbatim>\<open>showProgress\<close>, \<^verbatim>\<open>startTranscribe\<close>,
  \<^verbatim>\<open>displayResult\<close>, \<^verbatim>\<open>showDemoResult\<close>, \<^verbatim>\<open>saveToLocalHistory\<close>, \<^verbatim>\<open>showToast\<close>) have
  the same statements in both, except that the earlier file's fingerstyle demo text
  repeats its six tab lines. The later version is the one embedded, with the encoding
  of \<^verbatim>\<open>shareSheet\<close> and the decoding of \<^verbatim>\<open>handleHashNavigation\<close>, which only it has.

  Conventions of the embedding:
  \<^item> a JavaScript string is the list of its UTF-16 code units (\<open>16 word list\<close>);
    \<open>str\<close> turns an ASCII literal into one, other characters are written as code units;
  \<^item> a JavaScript number that the code treats as an integer (tempo, key offset,
    \<^verbatim>\<open>Date.now()\<close>) is an \<open>int\<close> or \<open>nat\<close>; this is exact for the integers a double
    represents exactly and prints without exponent;
  \<^item> a field of a result object is \<open>None\<close> when it is \<^verbatim>\<open>undefined\<close> (or \<^verbatim>\<open>null\<close>, which
    the functions that read the fields treat alike), and holds a value of the type the
    data model gives it otherwise;
  \<^item> property lookups in the object literals \<^verbatim>\<open>typeLabels\<close> and \<^verbatim>\<open>demoSheets\<close> are
    lookups of own properties: keys that name a member of \<^verbatim>\<open>Object.prototype\<close>
    (such as \<^verbatim>\<open>constructor\<close>) are outside the model;
  \<^item> the page is the record \<open>app_state\<close>: the two global variables, the objects they
    refer to (a store from references to objects), the elements of the document the
    functions touch (all assumed present), the history item of \<^verbatim>\<open>localStorage\<close> and
    the requests sent. A function is a state transformer; one that can throw returns a
    \<open>completion\<close>, which keeps the state reached at the throw. \<^verbatim>\<open>localStorage.setItem\<close> is
    taken to succeed (no quota error);
  \<^item> an \<^verbatim>\<open>async\<close> function is run to completion on its own: timers (the toast's
    fade-out, \<^verbatim>\<open>delay\<close>) and other events in between are not modelled.
\<close>

subsection \<open>Strings\<close>

type_synonym jsstring = "16 word list"

definition str :: "string \<Rightarrow> jsstring" where
  "str s = map of_char s"

text \<open>\<^verbatim>\<open>String.prototype.includes\<close>: the needle occurs at some position.\<close>

fun starts_with :: "jsstring \<Rightarrow> jsstring \<Rightarrow> bool" where
  "starts_with s [] = True"
| "starts_with [] (n # ns) = False"
| "starts_with (c # cs) (n # ns) = (c = n \<and> starts_with cs ns)"

fun js_includes :: "jsstring \<Rightarrow> jsstring \<Rightarrow> bool" where
  "js_includes [] n = (n = [])"
| "js_includes (c # cs) n = (starts_with (c # cs) n \<or> js_includes cs n)"

text \<open>
  \<^verbatim>\<open>String.prototype.trim\<close> removes white space and line terminators from both ends:
  TAB, LF, VT, FF, CR, SP, NBSP, U+1680, U+2000 to U+200A, LS, PS, U+202F, U+205F,
  U+3000 and the byte order mark.
\<close>

definition is_white_space :: "16 word \<Rightarrow> bool" where
  "is_white_space c =
     (c \<in> {0x09, 0x0A, 0x0B, 0x0C, 0x0D, 0x20, 0xA0, 0x1680, 0x2028, 0x2029, 0x202F,
            0x205F, 0x3000, 0xFEFF} \<or> (0x2000 \<le> c \<and> c \<le> 0x200A))"

definition trim_start :: "jsstring \<Rightarrow> jsstring" where
  "trim_start s = dropWhile is_white_space s"

definition trim :: "jsstring \<Rightarrow> jsstring" where
  "trim s = rev (dropWhile is_white_space (rev (trim_start s)))"

text \<open>Number to string, for integers: the decimal digits, with a minus sign.\<close>

fun digits :: "nat \<Rightarrow> jsstring" where
  "digits n = (if n < 10 then [of_nat (48 + n)]
               else digits (n div 10) @ [of_nat (48 + n mod 10)])"

declare digits.simps [simp del]

definition number_to_string :: "int \<Rightarrow> jsstring" where
  "number_to_string n = (if n < 0 then 0x2D # digits (nat (- n)) else digits (nat n))"

definition is_digit :: "16 word \<Rightarrow> bool" where
  "is_digit c = (0x30 \<le> c \<and> c \<le> 0x39)"

text \<open>Lines of a text, split at LF.\<close>

fun split_lines :: "jsstring \<Rightarrow> jsstring list" where
  "split_lines [] = [[]]"
| "split_lines (c # cs) =
     (if c = 0x0A then [] # split_lines cs
      else (case split_lines cs of l # ls \<Rightarrow> (c # l) # ls | [] \<Rightarrow> [[c]]))"

fun join_lines :: "jsstring list \<Rightarrow> jsstring" where
  "join_lines [] = []"
| "join_lines [l] = l"
| "join_lines (l # ls) = l @ 0x0A # join_lines ls"

subsection \<open>Result objects and the page\<close>

text \<open>
  A transcription result as the server, the share link, the history or the demo mode
  produce it. \<open>sheet_id\<close> is the field \<^verbatim>\<open>id\<close>, \<open>key\<close> the field \<^verbatim>\<open>key\<close>.
\<close>

record sheet =
  sheet_id :: "jsstring option"
  youtube_url :: "jsstring option"
  title :: "jsstring option"
  output_type :: "jsstring option"
  content :: "jsstring option"
  tempo :: "int option"
  key :: "jsstring option"
  created_at :: "jsstring option"
  midi_note :: "jsstring option"

text \<open>The body of the request \<^verbatim>\<open>POST /api/transcribe\<close>.\<close>

record request =
  req_youtube_url :: jsstring
  req_output_type :: jsstring
  req_key_offset :: int

text \<open>
  The item \<^verbatim>\<open>tab-finder-history\<close> of \<^verbatim>\<open>localStorage\<close>, by what \<^verbatim>\<open>JSON.parse\<close> makes of
  its text: not JSON at all, JSON that is not an array, or an array of records. The
  empty text is \<open>EmptyText\<close>; an absent item is \<open>None\<close> in the state.
\<close>

datatype stored = EmptyText | NotJson | NotArray | Records "sheet list"

record app_state =
  currentType :: jsstring
  currentResult :: "nat option"
  heap :: "nat \<Rightarrow> sheet"
  next_ref :: nat
  url_input_value :: jsstring
  url_input_focused :: bool
  key_select_value :: jsstring
  type_btns :: "(jsstring \<times> bool) list"
  btn_disabled :: bool
  btn_text_hidden :: bool
  btn_loading_hidden :: bool
  progress_hidden :: bool
  progress_step :: nat
  progress_percent :: nat
  result_section_hidden :: bool
  result_section_scrolled :: bool
  result_title :: jsstring
  result_tempo :: jsstring
  result_key :: jsstring
  result_type :: jsstring
  sheet_content :: jsstring
  result_note :: jsstring
  result_note_hidden :: bool
  toast_text :: jsstring
  toast_shown :: bool
  history_item :: "stored option"
  requests :: "request list"

datatype completion = Returns app_state | Throws app_state

fun final_state :: "completion \<Rightarrow> app_state" where
  "final_state (Returns s) = s"
| "final_state (Throws s) = s"

fun returns :: "completion \<Rightarrow> bool" where
  "returns (Returns s) = True"
| "returns (Throws s) = False"

subsection \<open>Small functions\<close>

text \<open>
  \<^verbatim>\<open>selectType\<close>: stores the type and marks the button whose \<^verbatim>\<open>data-type\<close> is equal.
\<close>

definition selectType :: "jsstring \<Rightarrow> app_state \<Rightarrow> app_state" where
  "selectType type s =
     s\<lparr>currentType := type,
       type_btns := map (\<lambda>(t, active). (t, t = type)) (type_btns s)\<rparr>"

text \<open>
  \<^verbatim>\<open>showToast\<close>: sets the text and shows the toast (it fades after 2.5 s, not modelled).
\<close>

definition showToast :: "jsstring \<Rightarrow> app_state \<Rightarrow> app_state" where
  "showToast message s = s\<lparr>toast_text := message, toast_shown := True\<rparr>"

text \<open>
  \<^verbatim>\<open>showProgress(step, percent)\<close>: shows the section; the steps below \<open>step\<close> are done,
  the step \<open>step\<close> is active, which the one number \<open>progress_step\<close> records.
\<close>

definition showProgress :: "nat \<Rightarrow> nat \<Rightarrow> app_state \<Rightarrow> app_state" where
  "showProgress step percent s =
     s\<lparr>progress_hidden := False, progress_step := step, progress_percent := percent\<rparr>"

definition hideProgress :: "app_state \<Rightarrow> app_state" where
  "hideProgress s = s\<lparr>progress_hidden := True\<rparr>"

subsection \<open>displayResult\<close>

definition default_title :: jsstring where
  "default_title = [0x672A, 0x77E5, 0x6B4C, 0x66F2]"

definition tempo_prefix :: jsstring where
  "tempo_prefix = [0x2669] @ str '' = ''"

definition key_suffix :: jsstring where
  "key_suffix = str '' '' @ [0x5927, 0x8ABF]"

definition label_chord_sheet :: jsstring where
  "label_chord_sheet = [0xD83C, 0xDFA4] @ str '' '' @ [0x5F48, 0x5531, 0x7C21, 0x8B5C]"

definition label_fingerstyle_tab :: jsstring where
  "label_fingerstyle_tab =
     [0xD83C, 0xDFB8] @ str '' '' @ [0x6307, 0x5F48, 0x516D, 0x7DDA, 0x8B5C]"

definition label_piano_sheet :: jsstring where
  "label_piano_sheet = [0xD83C, 0xDFB9] @ str '' '' @ [0x92FC, 0x7434, 0x7C21, 0x8B5C]"

text \<open>The object literal \<^verbatim>\<open>typeLabels\<close>, by its own properties.\<close>

definition typeLabels :: "jsstring \<Rightarrow> jsstring option" where
  "typeLabels k =
     (if k = str ''chord_sheet'' then Some label_chord_sheet
      else if k = str ''fingerstyle_tab'' then Some label_fingerstyle_tab
      else if k = str ''piano_sheet'' then Some label_piano_sheet
      else None)"

text \<open>\<^verbatim>\<open>x || d\<close> for a string or undefined \<open>x\<close>: \<open>d\<close> when \<open>x\<close> is undefined or empty.\<close>

definition or_else :: "jsstring option \<Rightarrow> jsstring \<Rightarrow> jsstring" where
  "or_else x d = (case x of None \<Rightarrow> d | Some v \<Rightarrow> if v = [] then d else v)"

text \<open>\<^verbatim>\<open>data.tempo || 120\<close>, then put into the template string.\<close>

definition tempo_or_default :: "int option \<Rightarrow> int" where
  "tempo_or_default t = (case t of None \<Rightarrow> 120 | Some n \<Rightarrow> if n = 0 then 120 else n)"

text \<open>
  The key of \<^verbatim>\<open>typeLabels[data.output_type]\<close>: an undefined type is the key
  \<^verbatim>\<open>"undefined"\<close>.
\<close>

definition property_key :: "jsstring option \<Rightarrow> jsstring" where
  "property_key x = (case x of None \<Rightarrow> str ''undefined'' | Some k \<Rightarrow> k)"

text \<open>Setting \<^verbatim>\<open>textContent\<close> to undefined sets the empty text.\<close>

definition text_of :: "jsstring option \<Rightarrow> jsstring" where
  "text_of x = (case x of None \<Rightarrow> [] | Some v \<Rightarrow> v)"

definition truthy :: "jsstring option \<Rightarrow> bool" where
  "truthy x = (case x of None \<Rightarrow> False | Some v \<Rightarrow> v \<noteq> [])"

text \<open>
  \<^verbatim>\<open>displayResult(data)\<close>. \<open>None\<close> is \<^verbatim>\<open>null\<close>: reading \<^verbatim>\<open>data.title\<close> throws a
  TypeError, after the section has been shown. Otherwise \<open>data\<close> is a reference into
  the store.
\<close>

definition displayResult :: "nat option \<Rightarrow> app_state \<Rightarrow> completion" where
  "displayResult data s =
     (let s1 = s\<lparr>result_section_hidden := False\<rparr> in
      case data of
        None \<Rightarrow> Throws s1
      | Some r \<Rightarrow>
          let d = heap s r;
              s2 = s1\<lparr>result_title := or_else (title d) default_title,
                      result_tempo := tempo_prefix @ number_to_string (tempo_or_default (tempo d)),
                      result_key := or_else (key d) (str ''C'') @ key_suffix,
                      result_type := or_else (typeLabels (property_key (output_type d))) [],
                      sheet_content := text_of (content d)\<rparr>;
              s3 = (if truthy (midi_note d)
                    then s2\<lparr>result_note := text_of (midi_note d), result_note_hidden := False\<rparr>
                    else s2\<lparr>result_note_hidden := True\<rparr>)
          in Returns (s3\<lparr>result_section_scrolled := True\<rparr>))"

subsection \<open>parseInt\<close>

text \<open>
  \<^verbatim>\<open>parseInt(string)\<close> without a radix: leading white space is skipped, a sign is read,
  the prefix \<^verbatim>\<open>0x\<close> or \<^verbatim>\<open>0X\<close> selects radix 16, and the longest run of digits of the
  radix is the value; no digit at all is \<^verbatim>\<open>NaN\<close>, here \<open>None\<close>. Minus zero is zero.
\<close>

definition digit_value :: "16 word \<Rightarrow> nat option" where
  "digit_value c =
     (if 0x30 \<le> c \<and> c \<le> 0x39 then Some (unat c - 0x30)
      else if 0x61 \<le> c \<and> c \<le> 0x7A then Some (unat c - 0x61 + 10)
      else if 0x41 \<le> c \<and> c \<le> 0x5A then Some (unat c - 0x41 + 10)
      else None)"

definition is_radix_digit :: "nat \<Rightarrow> 16 word \<Rightarrow> bool" where
  "is_radix_digit radix c = (case digit_value c of None \<Rightarrow> False | Some v \<Rightarrow> v < radix)"

fun radix_value :: "nat \<Rightarrow> nat \<Rightarrow> jsstring \<Rightarrow> nat" where
  "radix_value radix acc [] = acc"
| "radix_value radix acc (c # cs) =
     radix_value radix (acc * radix + (case digit_value c of None \<Rightarrow> 0 | Some v \<Rightarrow> v)) cs"

definition parseInt :: "jsstring \<Rightarrow> int option" where
  "parseInt string =
     (let s0 = trim_start string;
          negative = (s0 \<noteq> [] \<and> hd s0 = 0x2D);
          s1 = (if s0 \<noteq> [] \<and> (hd s0 = 0x2B \<or> hd s0 = 0x2D) then tl s0 else s0);
          hex = (starts_with s1 (str ''0x'') \<or> starts_with s1 (str ''0X''));
          radix = (if hex then 16 else 10);
          s2 = (if hex then drop 2 s1 else s1);
          z = takeWhile (is_radix_digit radix) s2
      in if z = [] then None
         else Some ((if negative then - 1 else 1) * int (radix_value radix 0 z)))"

subsection \<open>saveToLocalHistory\<close>

text \<open>
  \<^verbatim>\<open>JSON.parse(localStorage.getItem('tab-finder-history') || '[]')\<close>: an absent item
  and the empty text give the empty array; text that is not JSON makes \<^verbatim>\<open>JSON.parse\<close>
  throw, and a value that is not an array makes \<^verbatim>\<open>history.unshift\<close> throw (\<open>None\<close>).
\<close>

fun parse_history :: "stored option \<Rightarrow> sheet list option" where
  "parse_history None = Some []"
| "parse_history (Some EmptyText) = Some []"
| "parse_history (Some NotJson) = None"
| "parse_history (Some NotArray) = None"
| "parse_history (Some (Records rs)) = Some rs"

text \<open>
  \<^verbatim>\<open>saveToLocalHistory(record)\<close>: the record goes to the front, the array is cut to 50
  entries and written back as JSON, which stores the record's fields.
\<close>

definition saveToLocalHistory :: "nat \<Rightarrow> app_state \<Rightarrow> completion" where
  "saveToLocalHistory record s =
     (case parse_history (history_item s) of
        None \<Rightarrow> Throws s
      | Some history \<Rightarrow>
          let h1 = heap s record # history;
              h2 = (if length h1 > 50 then take 50 h1 else h1)
          in Returns (s\<lparr>history_item := Some (Records h2)\<rparr>))"

subsection \<open>showDemoResult\<close>

definition demoChordSheet :: jsstring where
  "demoChordSheet = join_lines [
    [0x901F, 0x5EA6] @ str '': '' @ [0x2669] @ str '' = 120'',
    [0x8ABF, 0x865F] @ str '': C '' @ [0x5927, 0x8ABF],
    [],
    str '' [C]          [Am]         [F]          [G]  '',
    str ''  1   3   5    6   1'' @ [0x00B7] @ str ''  5    4   3   2    5   -   -'',
    [],
    str '' [C]          [G]          [Am]         [F]  '',
    str ''  1   1   2    5,  7,  2    6,  1   3    4   3   1'',
    [],
    str '' [F]          [G]          [C]               '',
    str ''  4   4   5    7   2'' @ [0x00B7] @ str ''  1    1   -   -    -   -   -'',
    [],
    [0x203B] @ str '' '' @ [0x9019, 0x662F, 0x6F14, 0x793A, 0x6A21, 0x5F0F, 0x7684, 0x7BC4,
      0x4F8B, 0x7C21, 0x8B5C, 0x3002],
    str ''   '' @ [0x555F, 0x52D5, 0x5F8C, 0x7AEF, 0x670D, 0x52D9, 0x5F8C, 0xFF0C, 0x5C07, 0x5F9E]
      @ str '' YouTube '' @ [0x97F3, 0x8A0A, 0x5373, 0x6642, 0x7522, 0x751F, 0x771F, 0x5BE6,
      0x6A02, 0x8B5C, 0x3002]]"

definition demoFingerstyleTab :: jsstring where
  "demoFingerstyleTab = join_lines [
    [0x901F, 0x5EA6] @ str '': '' @ [0x2669] @ str '' = 120'',
    str ''Tuning: Standard (EADGBE)'',
    [],
    str ''e| -  0  -  1  -  0  -  -  3  -  1  -  0  -  -  -|'',
    str ''B| 1  -  1  -  3  -  1  0  -  0  -  3  -  1  0  -|'',
    str ''G| -  0  -  -  -  0  -  -  -  0  -  -  -  0  -  0|'',
    str ''D| 2  -  2  -  -  -  2  -  0  -  0  -  -  -  2  -|'',
    str ''A| 3  -  -  0  -  -  -  -  -  -  -  0  -  -  3  -|'',
    str ''E| -  -  -  -  -  -  -  3  -  -  -  -  3  -  -  -|'',
    [],
    [0x203B] @ str '' '' @ [0x9019, 0x662F, 0x6F14, 0x793A, 0x6A21, 0x5F0F, 0x7684, 0x7BC4,
      0x4F8B, 0x6307, 0x5F48, 0x8B5C, 0x3002]]"

definition demoPianoSheet :: jsstring where
  "demoPianoSheet = join_lines [
    [0x901F, 0x5EA6] @ str '': '' @ [0x2669] @ str '' = 120'',
    [0x8ABF, 0x865F] @ str '': C '' @ [0x5927, 0x8ABF],
    [],
    [0x53F3, 0x624B, 0xFF08, 0x65CB, 0x5F8B, 0xFF09, 0xFF1A],
    str ''  1   3   5   1'' @ [0x00B7]
      @ str ''  6   5   3   1   4   3   2   5   1   -   -   -'',
    [],
    [0x5DE6, 0x624B, 0xFF08, 0x4F34, 0x594F, 0xFF09, 0xFF1A],
    str ''  1,  5,  3,  1,  4,  1,  5,  7,  4,  1,  5,  2,  1,  -   -   -'',
    [],
    [0x203B] @ str '' '' @ [0x9019, 0x662F, 0x6F14, 0x793A, 0x6A21, 0x5F0F, 0x7684, 0x7BC4,
      0x4F8B, 0x92FC, 0x7434, 0x7C21, 0x8B5C, 0x3002]]"

text \<open>The object literal \<^verbatim>\<open>demoSheets\<close>, by its own properties.\<close>

definition demoSheets :: "jsstring \<Rightarrow> jsstring option" where
  "demoSheets k =
     (if k = str ''chord_sheet'' then Some demoChordSheet
      else if k = str ''fingerstyle_tab'' then Some demoFingerstyleTab
      else if k = str ''piano_sheet'' then Some demoPianoSheet
      else None)"

definition demo_title :: jsstring where
  "demo_title = [0xD83C, 0xDFB5] @ str '' '' @ [0x6F14, 0x793A, 0x7BC4, 0x4F8B, 0xFF08, 0x5F8C,
     0x7AEF, 0x672A, 0x555F, 0x52D5, 0xFF09]"

definition demo_hint :: jsstring where
  "demo_hint = [0xD83D, 0xDCA1] @ str '' '' @ [0x63D0, 0x793A, 0xFF1A, 0x8ACB, 0x5148, 0x555F,
     0x52D5, 0x5F8C, 0x7AEF, 0x670D, 0x52D9] @ str '' (cd backend && uv run main.py)''
     @ [0xFF0C, 0x5373, 0x53EF, 0x9032, 0x884C, 0x771F, 0x5BE6, 0x7684] @ str '' YouTube ''
     @ [0x8F49, 0x8B5C, 0x3002]"

text \<open>
  The object literal \<^verbatim>\<open>demoData\<close>; \<open>now\<close> is \<^verbatim>\<open>Date.now()\<close> and \<open>stamp\<close> is
  \<^verbatim>\<open>new Date().toISOString()\<close>.
\<close>

definition demoData :: "jsstring \<Rightarrow> nat \<Rightarrow> jsstring \<Rightarrow> jsstring \<Rightarrow> sheet" where
  "demoData url now stamp ctype =
     \<lparr>sheet_id = Some (str ''demo-'' @ digits now),
      youtube_url = Some url,
      title = Some demo_title,
      output_type = Some ctype,
      content = Some (or_else (demoSheets ctype) demoChordSheet),
      tempo = Some 120,
      key = Some (str ''C''),
      created_at = Some stamp,
      midi_note = Some demo_hint\<rparr>"

text \<open>A new object is stored at the next free reference.\<close>

definition alloc :: "sheet \<Rightarrow> app_state \<Rightarrow> nat \<times> app_state" where
  "alloc obj s = (next_ref s, s\<lparr>heap := (heap s)(next_ref s := obj), next_ref := Suc (next_ref s)\<rparr>)"

definition showDemoResult :: "jsstring \<Rightarrow> nat \<Rightarrow> jsstring \<Rightarrow> app_state \<Rightarrow> completion" where
  "showDemoResult url now stamp s =
     (let (r, s1) = alloc (demoData url now stamp (currentType s)) s in
      case displayResult (Some r) s1 of
        Throws s2 \<Rightarrow> Throws s2
      | Returns s2 \<Rightarrow> saveToLocalHistory r (s2\<lparr>currentResult := Some r\<rparr>))"

subsection \<open>startTranscribe\<close>

definition toast_enter_url :: jsstring where
  "toast_enter_url = [0x8ACB, 0x8F38, 0x5165] @ str '' YouTube '' @ [0x9023, 0x7D50]"

definition toast_invalid_url :: jsstring where
  "toast_invalid_url =
     [0x8ACB, 0x8F38, 0x5165, 0x6709, 0x6548, 0x7684] @ str '' YouTube '' @ [0x9023, 0x7D50]"

definition toast_done :: jsstring where
  "toast_done = [0xD83C, 0xDF89] @ str '' '' @ [0x8F49, 0x8B5C, 0x5B8C, 0x6210, 0xFF01]"

definition toast_backend_down :: jsstring where
  "toast_backend_down = [0x26A0, 0xFE0F] @ str '' '' @ [0x5F8C, 0x7AEF, 0x672A, 0x555F, 0x52D5,
     0xFF0C, 0x986F, 0x793A, 0x6F14, 0x793A, 0x6A21, 0x5F0F]"

definition toast_warn_prefix :: jsstring where
  "toast_warn_prefix = [0x26A0, 0xFE0F] @ str '' ''"

definition toast_demo_suffix :: jsstring where
  "toast_demo_suffix = [0xFF08, 0x5DF2, 0x986F, 0x793A, 0x6F14, 0x793A, 0x6A21, 0x5F0F, 0xFF09]"

definition default_error :: jsstring where
  "default_error = [0x8F49, 0x8B5C, 0x5931, 0x6557]"

text \<open>
  What the request comes to: \<^verbatim>\<open>fetch\<close> rejects with an error of the given message; the
  response is not ok and its JSON body has the given \<^verbatim>\<open>detail\<close>; reading the body
  throws with the given message; the response is ok and its body is an object; or the
  response is ok and its body is \<^verbatim>\<open>null\<close>, where \<open>displayResult\<close> throws a TypeError of
  the given message.
\<close>

datatype outcome =
    FetchRejects jsstring
  | ErrorStatus "jsstring option"
  | BodyRejects jsstring
  | OkBody sheet
  | OkNull jsstring

text \<open>
  The \<^verbatim>\<open>try\<close> block from the request on. The result is the message of the error thrown,
  if one is, and the state reached. (\<open>displayResult\<close> throws only on \<^verbatim>\<open>null\<close>, so the
  branch \<open>Throws\<close> after an object has been read is never taken; it is there because
  \<open>completion\<close> has two cases.)
\<close>

fun after_fetch :: "outcome \<Rightarrow> app_state \<Rightarrow> jsstring option \<times> app_state" where
  "after_fetch (FetchRejects m) s = (Some m, s)"
| "after_fetch (ErrorStatus detail) s = (Some (or_else detail default_error), showProgress 2 80 s)"
| "after_fetch (BodyRejects m) s = (Some m, showProgress 2 80 s)"
| "after_fetch (OkNull m) s =
     (Some m, final_state (displayResult None
                (hideProgress (showProgress 2 100 (showProgress 2 80 s)))))"
| "after_fetch (OkBody body) s =
     (let (data, s1) = alloc body (hideProgress (showProgress 2 100 (showProgress 2 80 s))) in
      case displayResult (Some data) s1 of
        Throws s2 \<Rightarrow> (Some [], s2)
      | Returns s2 \<Rightarrow> (None, showToast toast_done (s2\<lparr>currentResult := Some data\<rparr>)))"

definition key_offset_of :: "jsstring \<Rightarrow> int" where
  "key_offset_of v = (case parseInt v of None \<Rightarrow> 0 | Some n \<Rightarrow> if n = 0 then 0 else n)"

definition try_block :: "outcome \<Rightarrow> jsstring \<Rightarrow> app_state \<Rightarrow> jsstring option \<times> app_state" where
  "try_block out url s =
     (let s1 = showProgress 0 30 (showProgress 0 10 s);
          keyOffset = key_offset_of (key_select_value s1);
          s2 = showProgress 1 50 s1;
          s3 = s2\<lparr>requests := requests s2 @
                 [\<lparr>req_youtube_url = url, req_output_type = currentType s2,
                   req_key_offset = keyOffset\<rparr>]\<rparr>
      in after_fetch out s3)"

definition failure_toast :: "jsstring \<Rightarrow> jsstring" where
  "failure_toast m =
     (if js_includes m (str ''Failed to fetch'') \<or> js_includes m (str ''NetworkError'')
      then toast_backend_down
      else toast_warn_prefix @ m @ toast_demo_suffix)"

definition catch_block :: "jsstring \<Rightarrow> jsstring \<Rightarrow> nat \<Rightarrow> jsstring \<Rightarrow> app_state \<Rightarrow> completion" where
  "catch_block m url now stamp s =
     (case showDemoResult url now stamp (hideProgress s) of
        Throws s1 \<Rightarrow> Throws s1
      | Returns s1 \<Rightarrow> Returns (showToast (failure_toast m) s1))"

definition finally_block :: "app_state \<Rightarrow> app_state" where
  "finally_block s = s\<lparr>btn_disabled := False, btn_text_hidden := False, btn_loading_hidden := True\<rparr>"

fun map_completion :: "(app_state \<Rightarrow> app_state) \<Rightarrow> completion \<Rightarrow> completion" where
  "map_completion f (Returns s) = Returns (f s)"
| "map_completion f (Throws s) = Throws (f s)"

definition valid_url :: "jsstring \<Rightarrow> bool" where
  "valid_url url = (url \<noteq> [] \<and>
     (js_includes url (str ''youtube.com'') \<or> js_includes url (str ''youtu.be'')))"

definition startTranscribe :: "outcome \<Rightarrow> nat \<Rightarrow> jsstring \<Rightarrow> app_state \<Rightarrow> completion" where
  "startTranscribe out now stamp s =
     (let url = trim (url_input_value s) in
      if url = [] then Returns ((showToast toast_enter_url s)\<lparr>url_input_focused := True\<rparr>)
      else if \<not> js_includes url (str ''youtube.com'') \<and> \<not> js_includes url (str ''youtu.be'')
      then Returns (showToast toast_invalid_url s)
      else
        let s1 = s\<lparr>btn_disabled := True, btn_text_hidden := True, btn_loading_hidden := False,
                   result_section_hidden := True\<rparr>
        in map_completion finally_block
             (case try_block out url s1 of
                (None, s2) \<Rightarrow> Returns s2
              | (Some m, s2) \<Rightarrow> catch_block m url now stamp s2))"

text \<open>The page as loaded, with a link typed in and nothing stored.\<close>

definition empty_sheet :: sheet where
  "empty_sheet = \<lparr>sheet_id = None, youtube_url = None, title = None, output_type = None,
     content = None, tempo = None, key = None, created_at = None, midi_note = None\<rparr>"

definition page0 :: app_state where
  "page0 = \<lparr>currentType = str ''chord_sheet'', currentResult = None,
     heap = (\<lambda>r. empty_sheet), next_ref = 0,
     url_input_value = str '' https://youtu.be/abc '', url_input_focused = False,
     key_select_value = str ''0'',
     type_btns = [(str ''chord_sheet'', True), (str ''fingerstyle_tab'', False),
                  (str ''piano_sheet'', False)],
     btn_disabled = False, btn_text_hidden = False, btn_loading_hidden = True,
     progress_hidden = True, progress_step = 0, progress_percent = 0,
     result_section_hidden = True, result_section_scrolled = False,
     result_title = [], result_tempo = [], result_key = [], result_type = [],
     sheet_content = [], result_note = [], result_note_hidden = True,
     toast_text = [], toast_shown = False, history_item = None, requests = []\<rparr>"

subsection \<open>Error messages and the words of the rendering claims\<close>


text \<open>
  A line of numbered notation starts, after blanks, with a digit or a dash. It begins
  with a plain 1 when that first symbol is the digit 1 and no octave mark (a middle dot
  for the octave above, a comma for the octave below) follows it.
\<close>

definition first_symbol :: "jsstring \<Rightarrow> jsstring" where
  "first_symbol l = dropWhile (\<lambda>c. c = 0x20) l"

definition is_melody_line :: "jsstring \<Rightarrow> bool" where
  "is_melody_line l = (case first_symbol l of [] \<Rightarrow> False | c # cs \<Rightarrow> is_digit c \<or> c = 0x2D)"

definition melody_lines :: "jsstring \<Rightarrow> jsstring list" where
  "melody_lines text = filter is_melody_line (split_lines text)"

definition begins_with_plain_one :: "jsstring \<Rightarrow> bool" where
  "begins_with_plain_one l =
     (case first_symbol l of
        [] \<Rightarrow> False
      | c # cs \<Rightarrow> c = 0x31 \<and> (case cs of [] \<Rightarrow> True | m # ms \<Rightarrow> m \<noteq> 0xB7 \<and> m \<noteq> 0x2C))"

subsection \<open>Example pages\<close>

text \<open>A result as a server sends it, and the page holding it.\<close>

definition sample_sheet :: sheet where
  "sample_sheet = \<lparr>sheet_id = Some (str ''r1''), youtube_url = Some (str ''https://youtu.be/abc''),
     title = Some (str ''Song''), output_type = Some (str ''chord_sheet''),
     content = Some (str ''  5   -   -   -''), tempo = Some 120, key = Some (str ''C''),
     created_at = None, midi_note = None\<rparr>"

definition page1 :: app_state where
  "page1 = page0\<lparr>heap := (\<lambda>r. sample_sheet), next_ref := 1\<rparr>"



subsection \<open>Share links\<close>

text \<open>
  \<open>shareSheet\<close> puts five fields of a sheet into the object \<open>shareData\<close> and the object,
  as JSON, percent-encoded and then base64-encoded, behind \<^verbatim>\<open>#share-\<close> in the link;
  \<open>handleHashNavigation\<close> matches the fragment and decodes it in the opposite order. The
  built-in functions are modelled from their specifications (ECMAScript for the JSON and
  URI functions, the HTML standard for \<^verbatim>\<open>btoa\<close> and \<^verbatim>\<open>atob\<close>); \<open>None\<close> is a thrown error.

  The values of the properties: a string, an integer, \<^verbatim>\<open>null\<close> or \<^verbatim>\<open>undefined\<close>. An object is
  the list of its own properties in the order of their creation.
\<close>

datatype jvalue = JUndefined | JNull | JNumber int | JString jsstring

type_synonym jsobject = "(jsstring \<times> jvalue) list"

text \<open>Reading a property (undefined when there is none) and creating or overwriting one.\<close>

fun get_prop :: "jsobject \<Rightarrow> jsstring \<Rightarrow> jvalue" where
  "get_prop [] k = JUndefined"
| "get_prop ((n, v) # ps) k = (if n = k then v else get_prop ps k)"

fun set_prop :: "jsobject \<Rightarrow> jsstring \<Rightarrow> jvalue \<Rightarrow> jsobject" where
  "set_prop [] k v = [(k, v)]"
| "set_prop ((n, w) # ps) k v = (if n = k then (n, v) # ps else (n, w) # set_prop ps k v)"

text \<open>The object literal \<^verbatim>\<open>shareData\<close> of \<open>shareSheet\<close>.\<close>

definition string_value :: "jsstring option \<Rightarrow> jvalue" where
  "string_value x = (case x of None \<Rightarrow> JUndefined | Some s \<Rightarrow> JString s)"

definition number_value :: "int option \<Rightarrow> jvalue" where
  "number_value x = (case x of None \<Rightarrow> JUndefined | Some n \<Rightarrow> JNumber n)"

definition shareData :: "sheet \<Rightarrow> jsobject" where
  "shareData sheet =
     [(str ''title'', string_value (title sheet)),
      (str ''content'', string_value (content sheet)),
      (str ''tempo'', number_value (tempo sheet)),
      (str ''key'', string_value (key sheet)),
      (str ''output_type'', string_value (output_type sheet))]"

text \<open>
  \<^verbatim>\<open>JSON.stringify\<close> of such an object. A string is quoted code point by code point: the
  two-character escapes, the six-character escape (backslash, u, four lower-case
  hexadecimal digits) for the other control characters and for a surrogate that has no
  partner, the character itself otherwise.
  A property whose value is undefined is left out.
\<close>

definition is_high_surrogate :: "16 word \<Rightarrow> bool" where
  "is_high_surrogate c = (0xD800 \<le> c \<and> c \<le> 0xDBFF)"

definition is_low_surrogate :: "16 word \<Rightarrow> bool" where
  "is_low_surrogate c = (0xDC00 \<le> c \<and> c \<le> 0xDFFF)"

definition hex_lower :: "nat \<Rightarrow> 16 word" where
  "hex_lower n = (if n < 10 then of_nat (0x30 + n) else of_nat (0x57 + n))"

definition hex_upper :: "nat \<Rightarrow> 16 word" where
  "hex_upper n = (if n < 10 then of_nat (0x30 + n) else of_nat (0x37 + n))"

definition unicode_escape :: "16 word \<Rightarrow> jsstring" where
  "unicode_escape c =
     [0x5C, 0x75, hex_lower (unat c div 4096), hex_lower (unat c div 256 mod 16),
      hex_lower (unat c div 16 mod 16), hex_lower (unat c mod 16)]"

definition escape_unit :: "16 word \<Rightarrow> jsstring" where
  "escape_unit c =
     (if c = 0x08 then [0x5C, 0x62]
      else if c = 0x09 then [0x5C, 0x74]
      else if c = 0x0A then [0x5C, 0x6E]
      else if c = 0x0C then [0x5C, 0x66]
      else if c = 0x0D then [0x5C, 0x72]
      else if c = 0x22 then [0x5C, 0x22]
      else if c = 0x5C then [0x5C, 0x5C]
      else if c < 0x20 \<or> is_high_surrogate c \<or> is_low_surrogate c then unicode_escape c
      else [c])"

fun quote_units :: "jsstring \<Rightarrow> jsstring" where
  "quote_units [] = []"
| "quote_units [c] = escape_unit c"
| "quote_units (c # d # ds) =
     (if is_high_surrogate c \<and> is_low_surrogate d then c # d # quote_units ds
      else escape_unit c @ quote_units (d # ds))"

definition QuoteJSONString :: "jsstring \<Rightarrow> jsstring" where
  "QuoteJSONString s = 0x22 # quote_units s @ [0x22]"

fun serialize_value :: "jvalue \<Rightarrow> jsstring option" where
  "serialize_value JUndefined = None"
| "serialize_value JNull = Some (str ''null'')"
| "serialize_value (JNumber n) = Some (number_to_string n)"
| "serialize_value (JString s) = Some (QuoteJSONString s)"

fun serialize_members :: "jsobject \<Rightarrow> jsstring list" where
  "serialize_members [] = []"
| "serialize_members ((k, v) # ps) =
     (case serialize_value v of
        None \<Rightarrow> serialize_members ps
      | Some t \<Rightarrow> (QuoteJSONString k @ 0x3A # t) # serialize_members ps)"

fun join_commas :: "jsstring list \<Rightarrow> jsstring" where
  "join_commas [] = []"
| "join_commas [m] = m"
| "join_commas (m # ms) = m @ 0x2C # join_commas ms"

definition JSON_stringify :: "jsobject \<Rightarrow> jsstring" where
  "JSON_stringify obj = 0x7B # join_commas (serialize_members obj) @ [0x7D]"

text \<open>
  \<^verbatim>\<open>encodeURIComponent\<close>: letters, digits and \<^verbatim>\<open>- _ . ! ~ * ' ( )\<close> stay; any other code
  point is written as the percent escapes (upper-case hexadecimal) of its UTF-8 octets;
  a surrogate without partner throws a URIError.
\<close>

definition is_alnum :: "16 word \<Rightarrow> bool" where
  "is_alnum c = ((0x30 \<le> c \<and> c \<le> 0x39) \<or> (0x41 \<le> c \<and> c \<le> 0x5A) \<or> (0x61 \<le> c \<and> c \<le> 0x7A))"

definition uri_unreserved :: "16 word \<Rightarrow> bool" where
  "uri_unreserved c = (is_alnum c \<or> c \<in> {0x2D, 0x5F, 0x2E, 0x21, 0x7E, 0x2A, 0x27, 0x28, 0x29})"

definition utf8_encode :: "nat \<Rightarrow> nat list" where
  "utf8_encode cp =
     (if cp < 0x80 then [cp]
      else if cp < 0x800 then [0xC0 + cp div 64, 0x80 + cp mod 64]
      else if cp < 0x10000 then [0xE0 + cp div 4096, 0x80 + cp div 64 mod 64, 0x80 + cp mod 64]
      else [0xF0 + cp div 262144, 0x80 + cp div 4096 mod 64, 0x80 + cp div 64 mod 64,
            0x80 + cp mod 64])"

definition percent_escape :: "nat \<Rightarrow> jsstring" where
  "percent_escape b = [0x25, hex_upper (b div 16), hex_upper (b mod 16)]"

definition code_point :: "16 word \<Rightarrow> 16 word \<Rightarrow> nat" where
  "code_point hi lo = (unat hi - 0xD800) * 0x400 + (unat lo - 0xDC00) + 0x10000"

definition escape_code_point :: "nat \<Rightarrow> jsstring" where
  "escape_code_point cp = concat (map percent_escape (utf8_encode cp))"

fun encodeURIComponent :: "jsstring \<Rightarrow> jsstring option" where
  "encodeURIComponent [] = Some []"
| "encodeURIComponent (c # cs) =
     (if uri_unreserved c then map_option ((#) c) (encodeURIComponent cs)
      else if is_low_surrogate c then None
      else if is_high_surrogate c then
        (case cs of
           [] \<Rightarrow> None
         | d # ds \<Rightarrow>
             if is_low_surrogate d
             then map_option ((@) (escape_code_point (code_point c d))) (encodeURIComponent ds)
             else None)
      else map_option ((@) (escape_code_point (unat c))) (encodeURIComponent cs))"

text \<open>
  \<^verbatim>\<open>btoa\<close>: throws when a code unit is above 0xFF, else the base64 text of the octets,
  padded with \<^verbatim>\<open>=\<close>.
\<close>

definition b64_char :: "nat \<Rightarrow> 16 word" where
  "b64_char n =
     (if n < 26 then of_nat (0x41 + n)
      else if n < 52 then of_nat (0x61 + (n - 26))
      else if n < 62 then of_nat (0x30 + (n - 52))
      else if n = 62 then 0x2B else 0x2F)"

fun b64_encode :: "nat list \<Rightarrow> jsstring" where
  "b64_encode [] = []"
| "b64_encode [a] = [b64_char (a div 4), b64_char (a mod 4 * 16), 0x3D, 0x3D]"
| "b64_encode [a, b] =
     [b64_char (a div 4), b64_char (a mod 4 * 16 + b div 16), b64_char (b mod 16 * 4), 0x3D]"
| "b64_encode (a # b # c # bs) =
     [b64_char (a div 4), b64_char (a mod 4 * 16 + b div 16),
      b64_char (b mod 16 * 4 + c div 64), b64_char (c mod 64)] @ b64_encode bs"

definition btoa :: "jsstring \<Rightarrow> jsstring option" where
  "btoa s = (if \<forall>c \<in> set s. c \<le> 0xFF then Some (b64_encode (map unat s)) else None)"

text \<open>\<^verbatim>\<open>btoa(encodeURIComponent(JSON.stringify(shareData)))\<close> in \<open>shareSheet\<close>.\<close>

definition share_encode :: "jsobject \<Rightarrow> jsstring option" where
  "share_encode obj =
     (case encodeURIComponent (JSON_stringify obj) of
        None \<Rightarrow> None
      | Some u \<Rightarrow> btoa u)"

text \<open>
  The fragment of the link that \<open>shareSheet\<close> builds: on GitHub Pages a sheet with an id
  is linked by the id, every other sheet by its encoded data.
\<close>

definition shareUrl_fragment :: "bool \<Rightarrow> sheet \<Rightarrow> jsstring option" where
  "shareUrl_fragment is_github_pages sheet =
     (if is_github_pages \<and> truthy (sheet_id sheet)
      then Some (str ''#sheet-'' @ text_of (sheet_id sheet))
      else (case share_encode (shareData sheet) of
              None \<Rightarrow> None
            | Some encoded \<Rightarrow> Some (str ''#share-'' @ encoded)))"

text \<open>
  \<^verbatim>\<open>atob\<close> (forgiving base64 decoding): ASCII white space is removed; when the length is
  a multiple of 4, one or two \<^verbatim>\<open>=\<close> at the end are removed; a length of 1 modulo 4 and any
  character outside the alphabet throw; each character gives 6 bits, and the 4 or 2
  bits left over at the end are dropped.
\<close>

definition is_ascii_whitespace :: "16 word \<Rightarrow> bool" where
  "is_ascii_whitespace c = (c \<in> {0x09, 0x0A, 0x0C, 0x0D, 0x20})"

definition b64_value :: "16 word \<Rightarrow> nat option" where
  "b64_value c =
     (if 0x41 \<le> c \<and> c \<le> 0x5A then Some (unat c - 0x41)
      else if 0x61 \<le> c \<and> c \<le> 0x7A then Some (unat c - 0x61 + 26)
      else if 0x30 \<le> c \<and> c \<le> 0x39 then Some (unat c - 0x30 + 52)
      else if c = 0x2B then Some 62
      else if c = 0x2F then Some 63
      else None)"

definition b64_index :: "16 word \<Rightarrow> nat" where
  "b64_index c = (case b64_value c of None \<Rightarrow> 0 | Some v \<Rightarrow> v)"

definition strip_padding :: "jsstring \<Rightarrow> jsstring" where
  "strip_padding d =
     (if length d mod 4 = 0 \<and> d \<noteq> [] \<and> last d = 0x3D
      then (let d1 = butlast d in if d1 \<noteq> [] \<and> last d1 = 0x3D then butlast d1 else d1)
      else d)"

fun b64_decode :: "nat list \<Rightarrow> nat list" where
  "b64_decode (a # b # c # d # vs) =
     [a * 4 + b div 16, b mod 16 * 16 + c div 4, c mod 4 * 64 + d] @ b64_decode vs"
| "b64_decode [a, b, c] = [a * 4 + b div 16, b mod 16 * 16 + c div 4]"
| "b64_decode [a, b] = [a * 4 + b div 16]"
| "b64_decode vs = []"

definition atob :: "jsstring \<Rightarrow> jsstring option" where
  "atob s =
     (let d = strip_padding (filter (\<lambda>c. \<not> is_ascii_whitespace c) s) in
      if length d mod 4 = 1 then None
      else if \<exists>c \<in> set d. b64_value c = None then None
      else Some (map of_nat (b64_decode (map b64_index d))))"

text \<open>
  \<^verbatim>\<open>decodeURIComponent\<close>, in two passes with the same result as the single pass of the
  specification: first every \<^verbatim>\<open>%XX\<close> becomes an octet (a \<^verbatim>\<open>%\<close> without two hexadecimal
  digits throws), then every run of octets is read as UTF-8. An octet below 0x80 is a
  character; a lead octet must be followed by its continuation octets, all of them
  escapes, and the sequence must be the shortest encoding of a code point that is not a
  surrogate and not above 0x10FFFF; anything else throws a URIError.
\<close>

definition hex_value :: "16 word \<Rightarrow> nat option" where
  "hex_value c = (case digit_value c of None \<Rightarrow> None | Some v \<Rightarrow> if v < 16 then Some v else None)"

datatype item = Unit "16 word" | Octet nat

fun percent_decode :: "jsstring \<Rightarrow> item list option" where
  "percent_decode [] = Some []"
| "percent_decode (c # cs) =
     (if c \<noteq> 0x25 then map_option ((#) (Unit c)) (percent_decode cs)
      else (case cs of
              h1 # h2 # rest \<Rightarrow>
                (case (hex_value h1, hex_value h2) of
                   (Some a, Some b) \<Rightarrow> map_option ((#) (Octet (a * 16 + b))) (percent_decode rest)
                 | _ \<Rightarrow> None)
            | _ \<Rightarrow> None))"

definition is_continuation :: "nat \<Rightarrow> bool" where
  "is_continuation b = (0x80 \<le> b \<and> b < 0xC0)"

definition utf16_encode :: "nat \<Rightarrow> jsstring" where
  "utf16_encode cp =
     (if cp < 0x10000 then [of_nat cp]
      else [of_nat (0xD800 + (cp - 0x10000) div 0x400), of_nat (0xDC00 + (cp - 0x10000) mod 0x400)])"

fun utf8_decode :: "item list \<Rightarrow> jsstring option" where
  "utf8_decode [] = Some []"
| "utf8_decode (Unit c # xs) = map_option ((#) c) (utf8_decode xs)"
| "utf8_decode (Octet b # xs) =
     (if b < 0x80 then map_option ((#) (of_nat b)) (utf8_decode xs)
      else if b < 0xC0 then None
      else if b < 0xE0 then
        (case xs of
           Octet b1 # ys \<Rightarrow>
             (let cp = (b - 0xC0) * 64 + (b1 - 0x80) in
              if is_continuation b1 \<and> 0x80 \<le> cp
              then map_option ((@) (utf16_encode cp)) (utf8_decode ys) else None)
         | _ \<Rightarrow> None)
      else if b < 0xF0 then
        (case xs of
           Octet b1 # Octet b2 # ys \<Rightarrow>
             (let cp = (b - 0xE0) * 4096 + (b1 - 0x80) * 64 + (b2 - 0x80) in
              if is_continuation b1 \<and> is_continuation b2 \<and> 0x800 \<le> cp \<and>
                 \<not> (0xD800 \<le> cp \<and> cp \<le> 0xDFFF)
              then map_option ((@) (utf16_encode cp)) (utf8_decode ys) else None)
         | _ \<Rightarrow> None)
      else if b < 0xF8 then
        (case xs of
           Octet b1 # Octet b2 # Octet b3 # ys \<Rightarrow>
             (let cp = (b - 0xF0) * 262144 + (b1 - 0x80) * 4096 + (b2 - 0x80) * 64 + (b3 - 0x80) in
              if is_continuation b1 \<and> is_continuation b2 \<and> is_continuation b3 \<and>
                 0x10000 \<le> cp \<and> cp \<le> 0x10FFFF
              then map_option ((@) (utf16_encode cp)) (utf8_decode ys) else None)
         | _ \<Rightarrow> None)
      else None)"

definition decodeURIComponent :: "jsstring \<Rightarrow> jsstring option" where
  "decodeURIComponent s = (case percent_decode s of None \<Rightarrow> None | Some xs \<Rightarrow> utf8_decode xs)"

text \<open>
  \<^verbatim>\<open>JSON.parse\<close>, for the JSON texts that are one object whose members are strings,
  integers or \<^verbatim>\<open>null\<close>, which is what \<open>JSON_stringify\<close> writes; white space between the
  tokens is skipped, a member that comes again overwrites the earlier one. For every
  other text the result is \<open>None\<close>: \<^verbatim>\<open>JSON.parse\<close> throws on those that are not JSON, and
  the JSON among them (arrays, nested objects, booleans, fractions and exponents) is
  outside this model. The members are read by a loop, here with the length of the text
  as fuel, which is more than the number of members any text has.
\<close>

definition is_json_ws :: "16 word \<Rightarrow> bool" where
  "is_json_ws c = (c \<in> {0x20, 0x09, 0x0A, 0x0D})"

definition skip_ws :: "jsstring \<Rightarrow> jsstring" where
  "skip_ws s = dropWhile is_json_ws s"

definition simple_escape :: "16 word \<Rightarrow> 16 word option" where
  "simple_escape e =
     (if e = 0x22 then Some 0x22
      else if e = 0x5C then Some 0x5C
      else if e = 0x2F then Some 0x2F
      else if e = 0x62 then Some 0x08
      else if e = 0x66 then Some 0x0C
      else if e = 0x6E then Some 0x0A
      else if e = 0x72 then Some 0x0D
      else if e = 0x74 then Some 0x09
      else None)"

definition hex4 :: "16 word \<Rightarrow> 16 word \<Rightarrow> 16 word \<Rightarrow> 16 word \<Rightarrow> 16 word option" where
  "hex4 h1 h2 h3 h4 =
     (case (hex_value h1, hex_value h2, hex_value h3, hex_value h4) of
        (Some a, Some b, Some c, Some d) \<Rightarrow> Some (of_nat (a * 4096 + b * 256 + c * 16 + d))
      | _ \<Rightarrow> None)"

definition cons_unit :: "16 word \<Rightarrow> (jsstring \<times> jsstring) option \<Rightarrow> (jsstring \<times> jsstring) option" where
  "cons_unit u p = (case p of None \<Rightarrow> None | Some (v, rest) \<Rightarrow> Some (u # v, rest))"

fun parse_string_body :: "jsstring \<Rightarrow> (jsstring \<times> jsstring) option" where
  "parse_string_body [] = None"
| "parse_string_body (c # cs) =
     (if c = 0x22 then Some ([], cs)
      else if c = 0x5C then
        (case cs of
           [] \<Rightarrow> None
         | e # es \<Rightarrow>
             if e = 0x75 then
               (case es of
                  h1 # h2 # h3 # h4 # r \<Rightarrow>
                    (case hex4 h1 h2 h3 h4 of
                       None \<Rightarrow> None
                     | Some u \<Rightarrow> cons_unit u (parse_string_body r))
                | _ \<Rightarrow> None)
             else (case simple_escape e of
                     None \<Rightarrow> None
                   | Some u \<Rightarrow> cons_unit u (parse_string_body es)))
      else if c < 0x20 then None
      else cons_unit c (parse_string_body cs))"

definition parse_number :: "jsstring \<Rightarrow> (int \<times> jsstring) option" where
  "parse_number s =
     (let negative = (s \<noteq> [] \<and> hd s = 0x2D);
          s1 = (if negative then tl s else s);
          ds = takeWhile is_digit s1;
          rest = dropWhile is_digit s1
      in if ds = [] then None
         else if hd ds = 0x30 \<and> length ds > 1 then None
         else if rest \<noteq> [] \<and> hd rest \<in> {0x2E, 0x65, 0x45} then None
         else Some ((if negative then - 1 else 1) * int (radix_value 10 0 ds), rest))"

definition parse_value :: "jsstring \<Rightarrow> (jvalue \<times> jsstring) option" where
  "parse_value s =
     (case s of
        [] \<Rightarrow> None
      | c # cs \<Rightarrow>
          if c = 0x22 then
            (case parse_string_body cs of None \<Rightarrow> None | Some (v, r) \<Rightarrow> Some (JString v, r))
          else if starts_with s (str ''null'') then Some (JNull, drop 4 s)
          else (case parse_number s of None \<Rightarrow> None | Some (n, r) \<Rightarrow> Some (JNumber n, r)))"

fun parse_members :: "nat \<Rightarrow> jsobject \<Rightarrow> jsstring \<Rightarrow> (jsobject \<times> jsstring) option" where
  "parse_members 0 obj s = None"
| "parse_members (Suc fuel) obj s =
     (case skip_ws s of
        [] \<Rightarrow> None
      | c # cs \<Rightarrow>
          if c \<noteq> 0x22 then None
          else (case parse_string_body cs of
                  None \<Rightarrow> None
                | Some (k, r1) \<Rightarrow>
                    (case skip_ws r1 of
                       [] \<Rightarrow> None
                     | c1 # r2 \<Rightarrow>
                         if c1 \<noteq> 0x3A then None
                         else (case parse_value (skip_ws r2) of
                                 None \<Rightarrow> None
                               | Some (v, r3) \<Rightarrow>
                                   (case skip_ws r3 of
                                      [] \<Rightarrow> None
                                    | c2 # r4 \<Rightarrow>
                                        if c2 = 0x2C then parse_members fuel (set_prop obj k v) r4
                                        else if c2 = 0x7D then Some (set_prop obj k v, r4)
                                        else None)))))"

definition JSON_parse :: "jsstring \<Rightarrow> jsobject option" where
  "JSON_parse text =
     (case skip_ws text of
        [] \<Rightarrow> None
      | c # cs \<Rightarrow>
          if c \<noteq> 0x7B then None
          else (case (case skip_ws cs of
                        [] \<Rightarrow> None
                      | d # ds \<Rightarrow> if d = 0x7D then Some ([], ds)
                                  else parse_members (length text) [] (d # ds)) of
                  None \<Rightarrow> None
                | Some (obj, rest) \<Rightarrow> if skip_ws rest = [] then Some obj else None))"

text \<open>\<^verbatim>\<open>JSON.parse(decodeURIComponent(atob(shareMatch[1])))\<close> in \<open>handleHashNavigation\<close>.\<close>

definition share_decode :: "jsstring \<Rightarrow> jsobject option" where
  "share_decode b64 =
     (case atob b64 of
        None \<Rightarrow> None
      | Some u \<Rightarrow>
          (case decodeURIComponent u of
             None \<Rightarrow> None
           | Some text \<Rightarrow> JSON_parse text))"

text \<open>
  \<^verbatim>\<open>hash.match(/^#share-(.+)$/)\<close>: the fragment starts with \<^verbatim>\<open>#share-\<close> and goes on with
  at least one character, none of them a line terminator; the result is the text of
  the group.
\<close>

definition is_line_terminator :: "16 word \<Rightarrow> bool" where
  "is_line_terminator c = (c \<in> {0x0A, 0x0D, 0x2028, 0x2029})"

definition shareMatch :: "jsstring \<Rightarrow> jsstring option" where
  "shareMatch hash =
     (let rest = drop 7 hash in
      if starts_with hash (str ''#share-'') \<and> rest \<noteq> [] \<and> \<not> (\<exists>c \<in> set rest. is_line_terminator c)
      then Some rest else None)"

subsection \<open>Notions used in the proofs about share links\<close>

text \<open>
  The properties that \<open>JSON_stringify\<close> writes, the text of one of them, and the object
  that setting properties one after the other builds.
\<close>

definition defined_props :: "jsobject \<Rightarrow> jsobject" where
  "defined_props ps = filter (\<lambda>p. snd p \<noteq> JUndefined) ps"

definition member_text :: "jsstring \<times> jvalue \<Rightarrow> jsstring" where
  "member_text p =
     QuoteJSONString (fst p) @ 0x3A # (case serialize_value (snd p) of None \<Rightarrow> [] | Some t \<Rightarrow> t)"

definition add_props :: "jsobject \<Rightarrow> jsobject \<Rightarrow> jsobject" where
  "add_props qs obj = fold (\<lambda>p obj. set_prop obj (fst p) (snd p)) qs obj"

text \<open>
  Well-formed UTF-16: every surrogate is half of a pair. The base64 text without its
  padding, as numbers below 64, and the padding.
\<close>

fun well_formed :: "jsstring \<Rightarrow> bool" where
  "well_formed [] = True"
| "well_formed [c] = (\<not> is_high_surrogate c \<and> \<not> is_low_surrogate c)"
| "well_formed (c # d # ds) =
     (if is_high_surrogate c then is_low_surrogate d \<and> well_formed ds
      else \<not> is_low_surrogate c \<and> well_formed (d # ds))"

fun b64_sextets :: "nat list \<Rightarrow> nat list" where
  "b64_sextets [] = []"
| "b64_sextets [a] = [a div 4, a mod 4 * 16]"
| "b64_sextets [a, b] = [a div 4, a mod 4 * 16 + b div 16, b mod 16 * 4]"
| "b64_sextets (a # b # c # bs) =
     [a div 4, a mod 4 * 16 + b div 16, b mod 16 * 4 + c div 64, c mod 64] @ b64_sextets bs"

fun b64_padding :: "nat list \<Rightarrow> jsstring" where
  "b64_padding [] = []"
| "b64_padding [a] = [0x3D, 0x3D]"
| "b64_padding [a, b] = [0x3D]"
| "b64_padding (a # b # c # bs) = b64_padding bs"

text \<open>A sheet to share: its title has a character beyond ASCII, a surrogate pair and a quote.\<close>

definition shared_sheet :: sheet where
  "shared_sheet = empty_sheet\<lparr>sheet_id := Some (str ''r7''), title := Some [0x2669, 0xD83C, 0xDFB5, 0x22],
     content := Some (str ''1 -'' @ [0x0A]), tempo := Some 120,
     output_type := Some (str ''chord_sheet'')\<rparr>"

section \<open>Properties\<close>

subsection \<open>Strings\<close>

lemma starts_with_iff: "starts_with s n \<longleftrightarrow> (\<exists>q. s = n @ q)"
  by (induction s n rule: starts_with.induct) auto

lemma js_includes_iff: "js_includes s n \<longleftrightarrow> (\<exists>p q. s = p @ n @ q)"
proof (induction s)
  case Nil
  then show ?case by auto
next
  case (Cons c cs)
  show ?case
  proof
    assume "js_includes (c # cs) n"
    then consider "starts_with (c # cs) n" | "js_includes cs n" by auto
    then show "\<exists>p q. c # cs = p @ n @ q"
    proof cases
      case 1
      then obtain q where "c # cs = n @ q" by (auto simp: starts_with_iff)
      then have "c # cs = [] @ n @ q" by simp
      then show ?thesis by blast
    next
      case 2
      then obtain p q where "cs = p @ n @ q" using Cons.IH by auto
      then have "c # cs = (c # p) @ n @ q" by simp
      then show ?thesis by blast
    qed
  next
    assume "\<exists>p q. c # cs = p @ n @ q"
    then obtain p q where pq: "c # cs = p @ n @ q" by auto
    show "js_includes (c # cs) n"
    proof (cases p)
      case Nil
      then have "starts_with (c # cs) n" using pq by (auto simp: starts_with_iff)
      then show ?thesis by simp
    next
      case (Cons a p')
      then have "cs = p' @ n @ q" using pq by simp
      then show ?thesis using Cons.IH by auto
    qed
  qed
qed

lemma trim_decompose: "\<exists>a b. s = a @ trim s @ b"
proof -
  let ?t = "trim_start s"
  have 1: "s = takeWhile is_white_space s @ ?t" by (simp add: trim_start_def)
  have "rev ?t = takeWhile is_white_space (rev ?t) @ dropWhile is_white_space (rev ?t)" by simp
  then have "?t = rev (dropWhile is_white_space (rev ?t)) @ rev (takeWhile is_white_space (rev ?t))"
    by (metis rev_append rev_rev_ident)
  then have 2: "?t = trim s @ rev (takeWhile is_white_space (rev ?t))"
    by (simp add: trim_def)
  from 1 2 have "s = takeWhile is_white_space s @ trim s @ rev (takeWhile is_white_space (rev ?t))"
    by simp
  then show ?thesis by blast
qed

lemma js_includes_trim: "js_includes (trim s) n \<Longrightarrow> js_includes s n"
proof -
  assume "js_includes (trim s) n"
  then obtain p q where t: "trim s = p @ n @ q" by (auto simp: js_includes_iff)
  obtain a b where "s = a @ trim s @ b" using trim_decompose by blast
  then have "s = (a @ p) @ n @ (q @ b)" using t by simp
  then show ?thesis unfolding js_includes_iff by blast
qed

subsection \<open>What each function leaves alone\<close>

lemma returns_final: "returns c \<Longrightarrow> c = Returns (final_state c)"
  by (cases c) auto

lemma displayResult_Some_returns: "returns (displayResult (Some r) s)"
  by (simp add: displayResult_def Let_def)



lemma displayResult_content:
  "sheet_content (final_state (displayResult (Some r) s)) = text_of (content (heap s r))"
  by (simp add: displayResult_def Let_def)









lemma showDemoResult_content:
  "sheet_content (final_state (showDemoResult url now stamp s)) =
     or_else (demoSheets (currentType s)) demoChordSheet"
  by (simp add: showDemoResult_def alloc_def displayResult_def Let_def saveToLocalHistory_def
        demoData_def text_of_def truthy_def split: option.splits)










subsection \<open>Share links: each decoder undoes its encoder\<close>

lemma unat_of_nat16: "n < 65536 \<Longrightarrow> unat (of_nat n :: 16 word) = n"
  by (simp add: unat_of_nat)

lemma unat_hex_upper: "n < 16 \<Longrightarrow> unat (hex_upper n) = (if n < 10 then 48 + n else 55 + n)"
  unfolding hex_upper_def by (simp add: unat_of_nat16 del: of_nat_add)

lemma unat_hex_lower: "n < 16 \<Longrightarrow> unat (hex_lower n) = (if n < 10 then 48 + n else 87 + n)"
  unfolding hex_lower_def by (simp add: unat_of_nat16 del: of_nat_add)

lemma digit_value_unat:
  "digit_value c =
     (if 48 \<le> unat c \<and> unat c \<le> 57 then Some (unat c - 48)
      else if 97 \<le> unat c \<and> unat c \<le> 122 then Some (unat c - 97 + 10)
      else if 65 \<le> unat c \<and> unat c \<le> 90 then Some (unat c - 65 + 10)
      else None)"
  by (simp add: digit_value_def word_le_nat_alt)

lemma hex_value_upper: "n < 16 \<Longrightarrow> hex_value (hex_upper n) = Some n"
  by (simp add: hex_value_def digit_value_unat unat_hex_upper)

lemma hex_value_lower: "n < 16 \<Longrightarrow> hex_value (hex_lower n) = Some n"
  by (simp add: hex_value_def digit_value_unat unat_hex_lower)

lemma percent_decode_escape:
  assumes "b < 256"
  shows "percent_decode (percent_escape b @ rest) = map_option ((#) (Octet b)) (percent_decode rest)"
proof -
  have 1: "b div 16 < 16" "b mod 16 < 16" using assms by auto
  have 2: "b div 16 * 16 + b mod 16 = b" by simp
  show ?thesis
    by (simp add: percent_escape_def hex_value_upper[OF 1(1)] hex_value_upper[OF 1(2)] 2)
qed

lemma percent_decode_escapes:
  "\<forall>b \<in> set bs. b < 256 \<Longrightarrow>
   percent_decode (concat (map percent_escape bs) @ rest) =
     map_option ((@) (map Octet bs)) (percent_decode rest)"
proof (induction bs)
  case Nil
  then show ?case by (simp add: option.map_ident)
next
  case (Cons b bs)
  then have "percent_decode (concat (map percent_escape (b # bs)) @ rest) =
      map_option ((#) (Octet b)) (map_option ((@) (map Octet bs)) (percent_decode rest))"
    by (simp add: percent_decode_escape del: percent_decode.simps)
  then show ?case by (simp add: option.map_comp comp_def del: percent_decode.simps)
qed

lemma utf8_encode_bytes: "cp < 0x110000 \<Longrightarrow> \<forall>b \<in> set (utf8_encode cp). b < 256"
  by (auto simp: utf8_encode_def)

lemma utf8_decode_1:
  "cp < 0x80 \<Longrightarrow> utf8_decode (Octet cp # xs) = map_option ((@) (utf16_encode cp)) (utf8_decode xs)"
  by (cases "utf8_decode xs") (simp_all add: utf16_encode_def)

lemma split3: "cp div 4096 * 4096 + cp div 64 mod 64 * 64 + cp mod 64 = (cp::nat)"
proof -
  define x where "x = cp div 64"
  have 1: "cp div 4096 = x div 64" by (simp add: x_def div_mult2_eq)
  have "(a * 64 + b) * 64 = a * 4096 + b * 64" for a b :: nat by simp
  from this[of "x div 64" "x mod 64"]
  have 2: "x div 64 * 4096 + x mod 64 * 64 = x * 64" by simp
  have "x * 64 + cp mod 64 = cp" by (simp add: x_def)
  then show ?thesis using 1 2 by (simp add: x_def)
qed

lemma split4:
  "cp div 262144 * 262144 + cp div 4096 mod 64 * 4096 + cp div 64 mod 64 * 64 + cp mod 64 = (cp::nat)"
proof -
  define y where "y = cp div 4096"
  have 1: "cp div 262144 = y div 64" by (simp add: y_def div_mult2_eq)
  have "(a * 64 + b) * 4096 = a * 262144 + b * 4096" for a b :: nat by simp
  from this[of "y div 64" "y mod 64"]
  have 2: "y div 64 * 262144 + y mod 64 * 4096 = y * 4096" by simp
  have "y * 4096 + cp div 64 mod 64 * 64 + cp mod 64 = cp" using split3[of cp] by (simp add: y_def)
  then show ?thesis using 1 2 by (simp add: y_def)
qed

lemma utf8_decode_2:
  assumes "0x80 \<le> cp" "cp < 0x800"
  shows "utf8_decode (Octet (0xC0 + cp div 64) # Octet (0x80 + cp mod 64) # xs) =
           map_option ((@) (utf16_encode cp)) (utf8_decode xs)"
proof -
  have a: "\<not> 0xC0 + cp div 64 < 0x80" "\<not> 0xC0 + cp div 64 < 0xC0" "0xC0 + cp div 64 < 0xE0"
    using assms by auto
  have b: "is_continuation (0x80 + cp mod 64)" by (simp add: is_continuation_def)
  have c: "(0xC0 + cp div 64 - 0xC0) * 64 + (0x80 + cp mod 64 - 0x80) = cp" by simp
  show ?thesis using a b c assms by (simp add: Let_def)
qed

lemma utf8_decode_3:
  assumes "0x800 \<le> cp" "cp < 0x10000" "\<not> (0xD800 \<le> cp \<and> cp \<le> 0xDFFF)"
  shows "utf8_decode (Octet (0xE0 + cp div 4096) # Octet (0x80 + cp div 64 mod 64) #
            Octet (0x80 + cp mod 64) # xs) =
           map_option ((@) (utf16_encode cp)) (utf8_decode xs)"
proof -
  have a: "\<not> 0xE0 + cp div 4096 < 0x80" "\<not> 0xE0 + cp div 4096 < 0xC0"
    "\<not> 0xE0 + cp div 4096 < 0xE0" "0xE0 + cp div 4096 < 0xF0"
    using assms by auto
  have b: "is_continuation (0x80 + cp div 64 mod 64)" "is_continuation (0x80 + cp mod 64)"
    by (simp_all add: is_continuation_def)
  have c: "(0xE0 + cp div 4096 - 0xE0) * 4096 + (0x80 + cp div 64 mod 64 - 0x80) * 64 +
      (0x80 + cp mod 64 - 0x80) = cp" using split3[of cp] by simp
  show ?thesis using a b assms by (simp add: Let_def split3)
qed

lemma utf8_decode_4:
  assumes "0x10000 \<le> cp" "cp < 0x110000"
  shows "utf8_decode (Octet (0xF0 + cp div 262144) # Octet (0x80 + cp div 4096 mod 64) #
            Octet (0x80 + cp div 64 mod 64) # Octet (0x80 + cp mod 64) # xs) =
           map_option ((@) (utf16_encode cp)) (utf8_decode xs)"
proof -
  have a: "\<not> 0xF0 + cp div 262144 < 0x80" "\<not> 0xF0 + cp div 262144 < 0xC0"
    "\<not> 0xF0 + cp div 262144 < 0xE0" "\<not> 0xF0 + cp div 262144 < 0xF0"
    "0xF0 + cp div 262144 < 0xF8"
    using assms by auto
  have b: "is_continuation (0x80 + cp div 4096 mod 64)"
    "is_continuation (0x80 + cp div 64 mod 64)" "is_continuation (0x80 + cp mod 64)"
    by (simp_all add: is_continuation_def)
  have c: "(0xF0 + cp div 262144 - 0xF0) * 262144 + (0x80 + cp div 4096 mod 64 - 0x80) * 4096 +
      (0x80 + cp div 64 mod 64 - 0x80) * 64 + (0x80 + cp mod 64 - 0x80) = cp"
    using split4[of cp] by simp
  have d: "cp \<le> 0x10FFFF" using assms by simp
  show ?thesis using a b assms d by (simp add: Let_def split4)
qed

lemma utf8_decode_encode:
  assumes "cp < 0x110000" "\<not> (0xD800 \<le> cp \<and> cp \<le> 0xDFFF)"
  shows "utf8_decode (map Octet (utf8_encode cp) @ xs) =
           map_option ((@) (utf16_encode cp)) (utf8_decode xs)"
proof -
  consider "cp < 0x80" | "0x80 \<le> cp" "cp < 0x800" | "0x800 \<le> cp" "cp < 0x10000"
    | "0x10000 \<le> cp"
    by linarith
  then show ?thesis
  proof cases
    case 1
    then show ?thesis using utf8_decode_1[OF 1] by (simp add: utf8_encode_def)
  next
    case 2
    then show ?thesis using utf8_decode_2[OF 2] by (simp add: utf8_encode_def)
  next
    case 3
    then show ?thesis using utf8_decode_3[OF 3 assms(2)] by (simp add: utf8_encode_def)
  next
    case 4
    then show ?thesis using utf8_decode_4[OF 4 assms(1)] by (simp add: utf8_encode_def)
  qed
qed

lemma surrogate_unat:
  "is_high_surrogate c \<longleftrightarrow> 0xD800 \<le> unat c \<and> unat c \<le> 0xDBFF"
  "is_low_surrogate c \<longleftrightarrow> 0xDC00 \<le> unat c \<and> unat c \<le> 0xDFFF"
  by (simp_all add: is_high_surrogate_def is_low_surrogate_def word_le_nat_alt)

lemma unat16_bound: "unat (c :: 16 word) < 65536"
  using unsigned_less[of c, where ?'a = nat] by simp

lemma utf16_encode_unit: "utf16_encode (unat (c :: 16 word)) = [c]"
  using unat16_bound[of c] by (simp add: utf16_encode_def)

lemma code_point_range:
  assumes "is_high_surrogate c" "is_low_surrogate d"
  shows "0x10000 \<le> code_point c d" "code_point c d < 0x110000"
  using assms by (auto simp: surrogate_unat code_point_def)

lemma utf16_encode_pair:
  assumes "is_high_surrogate c" "is_low_surrogate d"
  shows "utf16_encode (code_point c d) = [c, d]"
proof -
  define h where "h = unat c - 0xD800"
  define l where "l = unat d - 0xDC00"
  have hl: "h < 0x400" "l < 0x400" "unat c = 0xD800 + h" "unat d = 0xDC00 + l"
    using assms by (auto simp: surrogate_unat h_def l_def)
  have cp: "code_point c d = h * 0x400 + l + 0x10000" by (simp add: code_point_def h_def l_def)
  have 1: "(code_point c d - 0x10000) div 0x400 = h" "(code_point c d - 0x10000) mod 0x400 = l"
    using hl by (simp_all add: cp)
  have 2: "\<not> code_point c d < 0x10000" by (simp add: cp)
  have "word_of_nat (unat c) = c" "word_of_nat (unat d) = d" by simp_all
  then have "of_nat (0xD800 + h) = c" "of_nat (0xDC00 + l) = d"
    unfolding hl(3,4) by simp_all
  then show ?thesis using 1 2 by (simp add: utf16_encode_def del: of_nat_add)
qed

lemma uri_unreserved_unat:
  "uri_unreserved c \<Longrightarrow> unat c < 0x80 \<and> unat c \<noteq> 0x25"
  by (auto simp: uri_unreserved_def is_alnum_def word_le_nat_alt)

lemma uri_unreserved_not_percent: "uri_unreserved c \<Longrightarrow> c \<noteq> 0x25"
  using uri_unreserved_unat[of c] by auto

lemma percent_escape_ascii: "b < 256 \<Longrightarrow> \<forall>c \<in> set (percent_escape b). unat c < 0x80"
proof -
  assume b: "b < 256"
  then have 1: "b div 16 < 16" "b mod 16 < 16" by auto
  show ?thesis
    using unat_hex_upper[OF 1(1)] unat_hex_upper[OF 1(2)] 1
    by (auto simp: percent_escape_def)
qed

lemma escape_code_point_ascii:
  "cp < 0x110000 \<Longrightarrow> \<forall>c \<in> set (escape_code_point cp). unat c < 0x80"
  using utf8_encode_bytes[of cp] percent_escape_ascii
  by (auto simp: escape_code_point_def)

lemma percent_decode_code_point:
  "cp < 0x110000 \<Longrightarrow>
   percent_decode (escape_code_point cp @ rest) =
     map_option ((@) (map Octet (utf8_encode cp))) (percent_decode rest)"
  unfolding escape_code_point_def
  by (rule percent_decode_escapes) (rule utf8_encode_bytes)

lemma decode_encode_step:
  assumes "cp < 0x110000" "\<not> (0xD800 \<le> cp \<and> cp \<le> 0xDFFF)"
    and "percent_decode e = Some xs" "utf8_decode xs = Some s"
  shows "\<exists>ys. percent_decode (escape_code_point cp @ e) = Some ys \<and>
              utf8_decode ys = Some (utf16_encode cp @ s)"
  using assms
  by (simp add: percent_decode_code_point utf8_decode_encode)

lemma decode_encode_items:
  "encodeURIComponent s = Some e \<Longrightarrow>
   \<exists>xs. percent_decode e = Some xs \<and> utf8_decode xs = Some s"
proof (induction s arbitrary: e rule: encodeURIComponent.induct)
  case 1
  then show ?case by simp
next
  case (2 c cs)
  show ?case
  proof (cases "uri_unreserved c")
    case True
    then obtain e' where e': "encodeURIComponent cs = Some e'" "e = c # e'"
      using "2.prems" by auto
    from "2.IH"(1)[OF True e'(1)] obtain xs where "percent_decode e' = Some xs" "utf8_decode xs = Some cs"
      by auto
    then show ?thesis using e'(2) uri_unreserved_not_percent[OF True] by simp
  next
    case unres: False
    show ?thesis
    proof (cases "is_low_surrogate c")
      case True
      then show ?thesis using "2.prems" unres by simp
    next
      case nlow: False
      show ?thesis
      proof (cases "is_high_surrogate c")
        case True
        then obtain d ds where cs: "cs = d # ds" and low: "is_low_surrogate d"
          using "2.prems" unres nlow by (auto split: list.splits if_splits)
        then obtain e' where e': "encodeURIComponent ds = Some e'"
            "e = escape_code_point (code_point c d) @ e'"
          using "2.prems" unres nlow True by auto
        from "2.IH"(2)[OF unres nlow True cs low e'(1)]
        obtain xs where xs: "percent_decode e' = Some xs" "utf8_decode xs = Some ds" by auto
        have r: "code_point c d < 0x110000" "\<not> (0xD800 \<le> code_point c d \<and> code_point c d \<le> 0xDFFF)"
          using code_point_range[OF True low] by auto
        from decode_encode_step[OF r xs]
        show ?thesis using e'(2) cs utf16_encode_pair[OF True low] by simp
      next
        case False
        then obtain e' where e': "encodeURIComponent cs = Some e'"
            "e = escape_code_point (unat c) @ e'"
          using "2.prems" unres nlow by auto
        from "2.IH"(3)[OF unres nlow False e'(1)]
        obtain xs where xs: "percent_decode e' = Some xs" "utf8_decode xs = Some cs" by auto
        have r: "unat c < 0x110000" "\<not> (0xD800 \<le> unat c \<and> unat c \<le> 0xDFFF)"
          using unat16_bound[of c] False nlow by (auto simp: surrogate_unat)
        from decode_encode_step[OF r xs]
        show ?thesis using e'(2) utf16_encode_unit[of c] by simp
      qed
    qed
  qed
qed

lemma decodeURIComponent_encodeURIComponent:
  "encodeURIComponent s = Some e \<Longrightarrow> decodeURIComponent e = Some s"
  using decode_encode_items[of s e] by (auto simp: decodeURIComponent_def)

lemma encodeURIComponent_ascii:
  "encodeURIComponent s = Some e \<Longrightarrow> \<forall>c \<in> set e. unat c < 0x80"
proof (induction s arbitrary: e rule: encodeURIComponent.induct)
  case 1
  then show ?case by simp
next
  case (2 c cs)
  show ?case
  proof (cases "uri_unreserved c")
    case True
    then obtain e' where e': "encodeURIComponent cs = Some e'" "e = c # e'"
      using "2.prems" by auto
    then show ?thesis using "2.IH"(1)[OF True e'(1)] uri_unreserved_unat[OF True] by simp
  next
    case unres: False
    show ?thesis
    proof (cases "is_low_surrogate c")
      case True
      then show ?thesis using "2.prems" unres by simp
    next
      case nlow: False
      show ?thesis
      proof (cases "is_high_surrogate c")
        case True
        then obtain d ds where cs: "cs = d # ds" and low: "is_low_surrogate d"
          using "2.prems" unres nlow by (auto split: list.splits if_splits)
        then obtain e' where e': "encodeURIComponent ds = Some e'"
            "e = escape_code_point (code_point c d) @ e'"
          using "2.prems" unres nlow True by auto
        show ?thesis
          using "2.IH"(2)[OF unres nlow True cs low e'(1)] e'(2)
            escape_code_point_ascii[OF code_point_range(2)[OF True low]]
          by auto
      next
        case False
        then obtain e' where e': "encodeURIComponent cs = Some e'"
            "e = escape_code_point (unat c) @ e'"
          using "2.prems" unres nlow by auto
        have "unat c < 0x110000" using unat16_bound[of c] by simp
        then show ?thesis
          using "2.IH"(3)[OF unres nlow False e'(1)] e'(2) escape_code_point_ascii
          by auto
      qed
    qed
  qed
qed

lemma b64_encode_split: "b64_encode bs = map b64_char (b64_sextets bs) @ b64_padding bs"
  by (induction bs rule: b64_encode.induct) simp_all

lemma b64_sextets_bound: "\<forall>b \<in> set bs. b < 256 \<Longrightarrow> \<forall>v \<in> set (b64_sextets bs). v < 64"
proof (induction bs rule: b64_sextets.induct)
  case (4 a b c bs)
  have "a div 4 < 64" "a mod 4 * 16 + b div 16 < 64" "b mod 16 * 4 + c div 64 < 64" "c mod 64 < 64"
    using "4.prems" by auto
  then show ?case using 4 by auto
qed auto

lemma b64_decode_sextets: "\<forall>b \<in> set bs. b < 256 \<Longrightarrow> b64_decode (b64_sextets bs) = bs"
proof (induction bs rule: b64_sextets.induct)
  case 1
  then show ?case by simp
next
  case (2 a)
  have "a div 4 * 4 + a mod 4 * 16 div 16 = a" by simp
  then show ?case by simp
next
  case (3 a b)
  have "a div 4 * 4 + (a mod 4 * 16 + b div 16) div 16 = a"
    "(a mod 4 * 16 + b div 16) mod 16 * 16 + b mod 16 * 4 div 4 = b"
    using 3 by auto
  then show ?case by simp
next
  case (4 a b c bs)
  have "a div 4 * 4 + (a mod 4 * 16 + b div 16) div 16 = a"
    "(a mod 4 * 16 + b div 16) mod 16 * 16 + (b mod 16 * 4 + c div 64) div 4 = b"
    "(b mod 16 * 4 + c div 64) mod 4 * 64 + c mod 64 = c"
    using "4.prems" by auto
  then show ?case using 4 by simp
qed

lemma unat_b64_char:
  "v < 64 \<Longrightarrow> unat (b64_char v) =
     (if v < 26 then 0x41 + v else if v < 52 then 0x61 + (v - 26)
      else if v < 62 then 0x30 + (v - 52) else if v = 62 then 0x2B else 0x2F)"
proof -
  assume v: "v < 64"
  have u: "unat (of_nat n :: 16 word) = n" if "n < 65536" for n
    using that by (rule unat_of_nat16)
  consider "v < 26" | "26 \<le> v" "v < 52" | "52 \<le> v" "v < 62" | "v = 62" | "v = 63"
    using v by linarith
  then show ?thesis
  proof cases
    case 1
    then have "b64_char v = of_nat (0x41 + v)" by (simp only: b64_char_def if_True)
    then show ?thesis using 1 u[of "0x41 + v"] by simp
  next
    case 2
    then have "b64_char v = of_nat (0x61 + (v - 26))" by (simp only: b64_char_def) simp
    then show ?thesis using 2 u[of "0x61 + (v - 26)"] by simp
  next
    case 3
    then have "b64_char v = of_nat (0x30 + (v - 52))" by (simp only: b64_char_def) simp
    then show ?thesis using 3 u[of "0x30 + (v - 52)"] by simp
  next
    case 4
    then show ?thesis by (simp add: b64_char_def)
  next
    case 5
    then show ?thesis by (simp add: b64_char_def)
  qed
qed

lemma b64_value_unat:
  "b64_value c =
     (if 0x41 \<le> unat c \<and> unat c \<le> 0x5A then Some (unat c - 0x41)
      else if 0x61 \<le> unat c \<and> unat c \<le> 0x7A then Some (unat c - 0x61 + 26)
      else if 0x30 \<le> unat c \<and> unat c \<le> 0x39 then Some (unat c - 0x30 + 52)
      else if unat c = 0x2B then Some 62
      else if unat c = 0x2F then Some 63
      else None)"
  by (simp add: b64_value_def word_le_nat_alt word_eq_iff_unsigned[where ?'a = nat])

lemma b64_value_char: "v < 64 \<Longrightarrow> b64_value (b64_char v) = Some v"
  by (auto simp: b64_value_unat unat_b64_char)

lemma b64_index_char: "v < 64 \<Longrightarrow> b64_index (b64_char v) = v"
  by (simp add: b64_index_def b64_value_char)

lemma b64_char_plain:
  "v < 64 \<Longrightarrow> b64_char v \<noteq> 0x3D \<and> \<not> is_ascii_whitespace (b64_char v)"
proof -
  assume v: "v < 64"
  have "unat (b64_char v) \<noteq> 0x3D" "unat (b64_char v) \<notin> {0x09, 0x0A, 0x0C, 0x0D, 0x20}"
    using v by (auto simp: unat_b64_char)
  then show ?thesis
    by (auto simp: is_ascii_whitespace_def)
qed

lemma b64_padding_cases: "b64_padding bs \<in> {[], [0x3D], [0x3D, 0x3D]}"
  by (induction bs rule: b64_padding.induct) simp_all

lemma b64_lengths:
  "(length (b64_sextets bs) + length (b64_padding bs)) mod 4 = 0"
  by (induction bs rule: b64_sextets.induct) simp_all

lemma b64_sextets_length_mod: "length (b64_sextets bs) mod 4 \<noteq> 1"
proof -
  have "length (b64_padding bs) \<le> 2" using b64_padding_cases[of bs] by auto
  moreover have "(length (b64_sextets bs) + length (b64_padding bs)) mod 4 = 0"
    by (rule b64_lengths)
  ultimately show ?thesis by presburger
qed

lemma strip_padding_body:
  assumes "body = [] \<or> last body \<noteq> 0x3D" "pad \<in> {[], [0x3D], [0x3D, 0x3D]}"
    and "length (body @ pad) mod 4 = 0"
  shows "strip_padding (body @ pad) = body"
proof -
  consider "pad = []" | "pad = [0x3D]" | "pad = [0x3D, 0x3D]" using assms(2) by auto
  then show ?thesis
  proof cases
    case 1
    then show ?thesis using assms(1) by (auto simp: strip_padding_def)
  next
    case 2
    then show ?thesis using assms(1,3) by (auto simp: strip_padding_def Let_def)
  next
    case 3
    have "butlast (body @ [0x3D, 0x3D]) = body @ [0x3D]" by (simp add: butlast_append)
    then show ?thesis using 3 assms(1,3) by (auto simp: strip_padding_def Let_def)
  qed
qed

lemma atob_b64_encode:
  assumes "\<forall>b \<in> set bs. b < 256"
  shows "atob (b64_encode bs) = Some (map of_nat bs)"
proof -
  let ?body = "map b64_char (b64_sextets bs)"
  have bound: "\<forall>v \<in> set (b64_sextets bs). v < 64" using b64_sextets_bound[OF assms] .
  have plain: "\<forall>c \<in> set ?body. c \<noteq> 0x3D \<and> \<not> is_ascii_whitespace c"
    using bound b64_char_plain by auto
  have padws: "\<forall>c \<in> set (b64_padding bs). \<not> is_ascii_whitespace c"
    using b64_padding_cases[of bs] by (auto simp: is_ascii_whitespace_def)
  have f: "filter (\<lambda>c. \<not> is_ascii_whitespace c) (b64_encode bs) = b64_encode bs"
    using plain padws by (auto simp: b64_encode_split intro!: filter_True)
  have l: "?body = [] \<or> last ?body \<noteq> 0x3D"
    using plain last_in_set[of ?body] by blast
  have m: "length (?body @ b64_padding bs) mod 4 = 0"
    using b64_lengths[of bs] by simp
  have s: "strip_padding (b64_encode bs) = ?body"
    unfolding b64_encode_split using strip_padding_body[OF l b64_padding_cases m] .
  have v: "\<not> (\<exists>c \<in> set ?body. b64_value c = None)"
    using bound b64_value_char by auto
  have i: "map b64_index ?body = b64_sextets bs"
    using bound by (simp add: map_idI b64_index_char comp_def)
  have n: "length ?body mod 4 \<noteq> 1" using b64_sextets_length_mod[of bs] by simp
  show ?thesis
    unfolding atob_def f s Let_def using v i n b64_decode_sextets[OF assms] by simp
qed

lemma atob_btoa: "btoa s = Some e \<Longrightarrow> atob e = Some s"
proof -
  assume a: "btoa s = Some e"
  then have le: "\<forall>c \<in> set s. c \<le> 0xFF" and e: "e = b64_encode (map unat s)"
    by (auto simp: btoa_def split: if_splits)
  have "\<forall>b \<in> set (map unat s). b < 256"
    using le by (auto simp: word_le_nat_alt)
  from atob_b64_encode[OF this] show ?thesis using e by (simp add: comp_def)
qed

lemma hex4_unicode_escape:
  "hex4 (hex_lower (unat c div 4096)) (hex_lower (unat c div 256 mod 16))
        (hex_lower (unat c div 16 mod 16)) (hex_lower (unat c mod 16)) = Some (c :: 16 word)"
proof -
  define n where "n = unat c"
  have n: "n < 65536" using unat16_bound[of c] by (simp add: n_def)
  then have 1: "n div 4096 < 16" "n div 256 mod 16 < 16" "n div 16 mod 16 < 16" "n mod 16 < 16"
    by auto
  define x where "x = n div 16"
  define y where "y = x div 16"
  have a: "n div 256 = y" "n div 4096 = y div 16"
    by (simp_all add: x_def y_def div_mult2_eq)
  have "(p * 16 + q) * 256 = p * 4096 + q * 256" for p q :: nat by simp
  from this[of "y div 16" "y mod 16"] have b: "y div 16 * 4096 + y mod 16 * 256 = y * 256" by simp
  have "(p * 16 + q) * 16 = p * 256 + q * 16" for p q :: nat by simp
  from this[of "x div 16" "x mod 16"] have c: "y * 256 + x mod 16 * 16 = x * 16"
    by (simp add: y_def)
  have d: "x * 16 + n mod 16 = n" by (simp add: x_def)
  have "n div 4096 * 4096 + n div 256 mod 16 * 256 + n div 16 mod 16 * 16 + n mod 16 = n"
    using a b c d by (simp add: x_def)
  then have "of_nat (n div 4096 * 4096 + n div 256 mod 16 * 256 + n div 16 mod 16 * 16 + n mod 16) = c"
    by (simp add: n_def)
  then show ?thesis
    unfolding hex4_def n_def[symmetric]
    by (simp only: hex_value_lower[OF 1(1)] hex_value_lower[OF 1(2)] hex_value_lower[OF 1(3)]
          hex_value_lower[OF 1(4)] prod.case option.case)
qed

lemma parse_string_body_unicode_escape:
  "parse_string_body (unicode_escape c @ t) = cons_unit c (parse_string_body t)"
  by (simp add: unicode_escape_def hex4_unicode_escape)

lemma parse_string_body_plain:
  "c \<noteq> 0x22 \<Longrightarrow> c \<noteq> 0x5C \<Longrightarrow> \<not> c < 0x20 \<Longrightarrow>
   parse_string_body (c # t) = cons_unit c (parse_string_body t)"
  by simp

lemma parse_string_body_escape_unit:
  "parse_string_body (escape_unit c @ t) = cons_unit c (parse_string_body t)"
proof -
  consider "c = 0x08" | "c = 0x09" | "c = 0x0A" | "c = 0x0C" | "c = 0x0D" | "c = 0x22" | "c = 0x5C"
    | "c \<notin> {0x08, 0x09, 0x0A, 0x0C, 0x0D, 0x22, 0x5C}"
      "c < 0x20 \<or> is_high_surrogate c \<or> is_low_surrogate c"
    | "c \<notin> {0x08, 0x09, 0x0A, 0x0C, 0x0D, 0x22, 0x5C}"
      "\<not> (c < 0x20 \<or> is_high_surrogate c \<or> is_low_surrogate c)"
    by blast
  then show ?thesis
  proof cases
    case 8
    then have "escape_unit c = unicode_escape c" by (simp add: escape_unit_def)
    then show ?thesis by (simp only: parse_string_body_unicode_escape)
  next
    case 9
    then have "escape_unit c = [c]" by (simp add: escape_unit_def)
    then show ?thesis using 9 by simp
  qed (simp_all add: escape_unit_def simple_escape_def)
qed

lemma surrogate_plain:
  assumes "is_high_surrogate c \<or> is_low_surrogate c"
  shows "c \<noteq> 0x22" "c \<noteq> 0x5C" "\<not> c < 0x20"
proof -
  have "0xD800 \<le> unat c" using assms by (auto simp: surrogate_unat)
  then show "c \<noteq> 0x22" "c \<noteq> 0x5C" "\<not> c < 0x20"
    by (auto simp: word_less_nat_alt)
qed

lemma parse_string_body_quote_units:
  "parse_string_body (quote_units s @ 0x22 # rest) = Some (s, rest)"
proof (induction s rule: quote_units.induct)
  case 1
  then show ?case by simp
next
  case (2 c)
  have "parse_string_body (escape_unit c @ 0x22 # rest) = cons_unit c (parse_string_body (0x22 # rest))"
    by (rule parse_string_body_escape_unit)
  then show ?case by (simp add: cons_unit_def)
next
  case (3 c d ds)
  show ?case
  proof (cases "is_high_surrogate c \<and> is_low_surrogate d")
    case True
    then have pc: "c \<noteq> 0x22" "c \<noteq> 0x5C" "\<not> c < 0x20"
      and pd: "d \<noteq> 0x22" "d \<noteq> 0x5C" "\<not> d < 0x20"
      using surrogate_plain[of c] surrogate_plain[of d] by blast+
    have q: "quote_units (c # d # ds) = c # d # quote_units ds" using True by simp
    have ih: "parse_string_body (quote_units ds @ 0x22 # rest) = Some (ds, rest)"
      using "3.IH"(1)[OF True] .
    have "parse_string_body (quote_units (c # d # ds) @ 0x22 # rest) =
        cons_unit c (cons_unit d (Some (ds, rest)))"
      by (simp only: q append_Cons parse_string_body_plain[OF pc] parse_string_body_plain[OF pd] ih)
    then show ?thesis by (simp add: cons_unit_def)
  next
    case False
    have q: "quote_units (c # d # ds) = escape_unit c @ quote_units (d # ds)" using False by auto
    have ih: "parse_string_body (quote_units (d # ds) @ 0x22 # rest) = Some (d # ds, rest)"
      using "3.IH"(2)[OF False] .
    have "parse_string_body (quote_units (c # d # ds) @ 0x22 # rest) =
        cons_unit c (Some (d # ds, rest))"
      by (simp only: q append_assoc parse_string_body_escape_unit ih)
    then show ?thesis by (simp add: cons_unit_def)
  qed
qed

lemma is_digit_unat: "is_digit c \<longleftrightarrow> 48 \<le> unat c \<and> unat c \<le> 57"
  by (simp add: is_digit_def word_le_nat_alt)

lemma unat_digit_char: "d < 10 \<Longrightarrow> unat (of_nat (48 + d) :: 16 word) = 48 + d"
  by (rule unat_of_nat16) simp

lemma digits_are_digits: "\<forall>c \<in> set (digits n). is_digit c"
proof (induction n rule: digits.induct)
  case (1 n)
  show ?case
  proof (cases "n < 10")
    case True
    have "digits n = [of_nat (48 + n)]" using True by (subst digits.simps) simp
    then show ?thesis using unat_digit_char[OF True] True
      by (simp add: is_digit_unat del: of_nat_add)
  next
    case False
    have d: "digits n = digits (n div 10) @ [of_nat (48 + n mod 10)]"
      using False by (subst digits.simps) simp
    have "n mod 10 < 10" by simp
    from unat_digit_char[OF this] have "is_digit (of_nat (48 + n mod 10) :: 16 word)"
      by (simp add: is_digit_unat del: of_nat_add)
    then show ?thesis using 1[OF False] by (simp add: d del: of_nat_add)
  qed
qed

lemma digits_not_empty: "digits n \<noteq> []"
  by (subst digits.simps) simp

lemma radix_value_append:
  "radix_value r acc (xs @ ys) = radix_value r (radix_value r acc xs) ys"
  by (induction xs arbitrary: acc) simp_all

lemma digit_value_digit_char: "d < 10 \<Longrightarrow> digit_value (of_nat (48 + d) :: 16 word) = Some d"
  using unat_digit_char[of d] by (simp add: digit_value_unat del: of_nat_add)

lemma radix_value_digits: "radix_value 10 0 (digits n) = n"
proof (induction n rule: digits.induct)
  case (1 n)
  show ?case
  proof (cases "n < 10")
    case True
    have "digits n = [of_nat (48 + n)]" using True by (subst digits.simps) simp
    then show ?thesis using digit_value_digit_char[OF True] by (simp del: of_nat_add)
  next
    case False
    have d: "digits n = digits (n div 10) @ [of_nat (48 + n mod 10)]"
      using False by (subst digits.simps) simp
    have "n mod 10 < 10" by simp
    from digit_value_digit_char[OF this] show ?thesis
      using 1[OF False] by (simp add: d radix_value_append del: of_nat_add)
  qed
qed

lemma hd_digits_positive: "0 < n \<Longrightarrow> hd (digits n) \<noteq> 0x30"
proof (induction n rule: digits.induct)
  case (1 n)
  show ?case
  proof (cases "n < 10")
    case True
    have "digits n = [of_nat (48 + n)]" using True by (subst digits.simps) simp
    moreover have "unat (of_nat (48 + n) :: 16 word) \<noteq> unat (0x30 :: 16 word)"
      using unat_digit_char[OF True] "1.prems" by simp
    ultimately show ?thesis by (auto simp del: of_nat_add)
  next
    case False
    have d: "digits n = digits (n div 10) @ [of_nat (48 + n mod 10)]"
      using False by (subst digits.simps) simp
    have "0 < n div 10" using False by simp
    from 1(1)[OF False this] show ?thesis by (simp add: d digits_not_empty del: of_nat_add)
  qed
qed

lemma digits_zero: "digits 0 = [0x30]"
  by (subst digits.simps) simp

lemma no_leading_zero: "\<not> (hd (digits n) = 0x30 \<and> length (digits n) > 1)"
  using hd_digits_positive[of n] digits_zero by (cases "n = 0") auto

lemma hd_digits_not_minus: "hd (digits n) \<noteq> 0x2D"
proof -
  have "hd (digits n) \<in> set (digits n)" using digits_not_empty by simp
  then have "is_digit (hd (digits n))" using digits_are_digits by blast
  then show ?thesis by (auto simp: is_digit_unat)
qed

lemma take_digits:
  assumes "\<not> is_digit c"
  shows "takeWhile is_digit (digits n @ c # rest) = digits n"
    and "dropWhile is_digit (digits n @ c # rest) = c # rest"
  using assms digits_are_digits[of n]
  by (simp_all add: takeWhile_append2 dropWhile_append2)

lemma parse_number_digits:
  assumes "c = 0x2C \<or> c = 0x7D"
  shows "parse_number (digits n @ c # rest) = Some (int n, c # rest)"
proof -
  have nd: "\<not> is_digit c" using assms by (auto simp: is_digit_unat)
  have h: "hd (digits n @ c # rest) = hd (digits n)" using digits_not_empty by simp
  have ne: "digits n @ c # rest \<noteq> []" by simp
  have c3: "c \<notin> {0x2E, 0x65, 0x45}" using assms by auto
  show ?thesis
    unfolding parse_number_def Let_def
    using hd_digits_not_minus[of n] no_leading_zero[of n] digits_not_empty[of n] c3
    by (simp add: h take_digits[OF nd] radix_value_digits)
qed

lemma parse_number_to_string:
  assumes "c = 0x2C \<or> c = 0x7D"
  shows "parse_number (number_to_string n @ c # rest) = Some (n, c # rest)"
proof (cases "n < 0")
  case True
  have nd: "\<not> is_digit c" using assms by (auto simp: is_digit_unat)
  have c3: "c \<notin> {0x2E, 0x65, 0x45}" using assms by auto
  have "parse_number (0x2D # digits (nat (- n)) @ c # rest) = Some (- int (nat (- n)), c # rest)"
    unfolding parse_number_def Let_def
    using no_leading_zero[of "nat (- n)"] digits_not_empty[of "nat (- n)"] c3
    by (simp add: take_digits[OF nd] radix_value_digits)
  then show ?thesis using True by (simp add: number_to_string_def)
next
  case False
  then show ?thesis using parse_number_digits[OF assms, of "nat n" rest]
    by (simp add: number_to_string_def)
qed

lemma high_not_low: "is_high_surrogate c \<Longrightarrow> \<not> is_low_surrogate c"
  by (auto simp: surrogate_unat)

lemma well_formed_Cons:
  "\<not> is_high_surrogate c \<Longrightarrow> \<not> is_low_surrogate c \<Longrightarrow> well_formed (c # s) = well_formed s"
  by (cases s) simp_all

lemma well_formed_append: "well_formed a \<Longrightarrow> well_formed b \<Longrightarrow> well_formed (a @ b)"
proof (induction a rule: well_formed.induct)
  case 1
  then show ?case by simp
next
  case (2 c)
  then show ?case by (simp add: well_formed_Cons)
next
  case (3 c d ds)
  then show ?case by (cases "is_high_surrogate c") (auto simp: well_formed_Cons)
qed

lemma ascii_not_surrogate: "unat c < 0x80 \<Longrightarrow> \<not> is_high_surrogate c \<and> \<not> is_low_surrogate c"
  by (auto simp: surrogate_unat)

lemma well_formed_ascii: "\<forall>c \<in> set s. unat c < 0x80 \<Longrightarrow> well_formed s"
  by (induction s) (simp_all add: well_formed_Cons ascii_not_surrogate)

lemma hex_lower_ascii: "n < 16 \<Longrightarrow> unat (hex_lower n) < 0x80"
  by (simp add: unat_hex_lower)

lemma unicode_escape_ascii: "\<forall>x \<in> set (unicode_escape c). unat x < 0x80"
proof -
  have n: "unat c < 65536" by (rule unat16_bound)
  then have 1: "unat c div 4096 < 16" "unat c div 256 mod 16 < 16" "unat c div 16 mod 16 < 16"
    "unat c mod 16 < 16" by auto
  show ?thesis
    unfolding unicode_escape_def
    using hex_lower_ascii[OF 1(1)] hex_lower_ascii[OF 1(2)] hex_lower_ascii[OF 1(3)]
      hex_lower_ascii[OF 1(4)]
    by simp
qed

lemma well_formed_escape_unit: "well_formed (escape_unit c)"
proof (cases "escape_unit c = [c]")
  case True
  show ?thesis
  proof (cases "is_high_surrogate c \<or> is_low_surrogate c")
    case s: True
    then have "escape_unit c = unicode_escape c"
      using surrogate_plain[OF s] by (auto simp: escape_unit_def)
    then show ?thesis using well_formed_ascii[OF unicode_escape_ascii] by simp
  next
    case False
    then show ?thesis using True by simp
  qed
next
  case False
  then have "\<forall>x \<in> set (escape_unit c). unat x < 0x80"
    using unicode_escape_ascii[of c] by (auto simp: escape_unit_def split: if_splits)
  then show ?thesis by (rule well_formed_ascii)
qed

lemma well_formed_quote_units: "well_formed (quote_units s)"
proof (induction s rule: quote_units.induct)
  case 1
  then show ?case by simp
next
  case (2 c)
  then show ?case by (simp add: well_formed_escape_unit)
next
  case (3 c d ds)
  then show ?case
    by (auto simp: well_formed_escape_unit well_formed_append)
qed

lemma well_formed_QuoteJSONString: "well_formed (QuoteJSONString s)"
proof -
  have "well_formed ([0x22] @ quote_units s @ [0x22])"
    by (intro well_formed_append well_formed_quote_units) (simp_all add: ascii_not_surrogate)
  then show ?thesis by (simp add: QuoteJSONString_def)
qed

lemma digits_ascii: "\<forall>c \<in> set (digits n). unat c < 0x80"
  using digits_are_digits[of n] by (auto simp: is_digit_unat)

lemma well_formed_number: "well_formed (number_to_string n)"
proof -
  have "\<forall>c \<in> set (number_to_string n). unat c < 0x80"
    using digits_ascii by (auto simp: number_to_string_def)
  then show ?thesis by (rule well_formed_ascii)
qed

lemma well_formed_value: "serialize_value v = Some t \<Longrightarrow> well_formed t"
  by (cases v) (auto simp: well_formed_number well_formed_QuoteJSONString str_def ascii_not_surrogate)

lemma well_formed_member: "snd p \<noteq> JUndefined \<Longrightarrow> well_formed (member_text p)"
proof -
  assume "snd p \<noteq> JUndefined"
  then obtain t where t: "serialize_value (snd p) = Some t" by (cases "snd p") auto
  have "well_formed (QuoteJSONString (fst p) @ [0x3A] @ t)"
    by (intro well_formed_append well_formed_QuoteJSONString well_formed_value[OF t])
       (simp add: ascii_not_surrogate)
  then show ?thesis by (simp add: member_text_def t)
qed

lemma well_formed_join: "\<forall>m \<in> set ms. well_formed m \<Longrightarrow> well_formed (join_commas ms)"
proof (induction ms rule: join_commas.induct)
  case (3 m m' ms)
  have "well_formed (m @ [0x2C] @ join_commas (m' # ms))"
    using 3 by (intro well_formed_append) (simp_all add: ascii_not_surrogate)
  then show ?case by simp
qed simp_all

lemma serialize_members_eq: "serialize_members ps = map member_text (defined_props ps)"
  by (induction ps rule: serialize_members.induct)
     (auto simp: member_text_def defined_props_def split: option.splits elim: serialize_value.elims)

lemma well_formed_stringify: "well_formed (JSON_stringify obj)"
proof -
  have "\<forall>m \<in> set (serialize_members obj). well_formed m"
    by (auto simp: serialize_members_eq defined_props_def well_formed_member)
  then have "well_formed ([0x7B] @ join_commas (serialize_members obj) @ [0x7D])"
    by (intro well_formed_append well_formed_join) (simp_all add: ascii_not_surrogate)
  then show ?thesis by (simp add: JSON_stringify_def)
qed

lemma encodeURIComponent_well_formed: "well_formed s \<Longrightarrow> \<exists>e. encodeURIComponent s = Some e"
proof (induction s rule: well_formed.induct)
  case 1
  then show ?case by simp
next
  case (2 c)
  then show ?case by simp
next
  case (3 c d ds)
  show ?case
  proof (cases "is_high_surrogate c")
    case True
    then have nu: "\<not> uri_unreserved c" using uri_unreserved_unat[of c] by (auto simp: surrogate_unat)
    from True 3 obtain e where "encodeURIComponent ds = Some e" "is_low_surrogate d" by auto
    then show ?thesis using True nu high_not_low[OF True] by simp
  next
    case False
    with 3 obtain e where e: "encodeURIComponent (d # ds) = Some e" "\<not> is_low_surrogate c" by auto
    then show ?thesis using False by (cases "uri_unreserved c") auto
  qed
qed

lemma skip_ws_plain: "\<not> is_json_ws c \<Longrightarrow> skip_ws (c # s) = c # s"
  by (simp add: skip_ws_def)

lemma not_ws: "unat c \<notin> {0x20, 0x09, 0x0A, 0x0D} \<Longrightarrow> \<not> is_json_ws c"
  by (auto simp: is_json_ws_def)

lemma parse_value_serialized:
  assumes "serialize_value v = Some t" "c = 0x2C \<or> c = 0x7D"
  shows "skip_ws (t @ c # rest) = t @ c # rest \<and> parse_value (t @ c # rest) = Some (v, c # rest)"
proof (cases v)
  case JUndefined
  then show ?thesis using assms by simp
next
  case JNull
  then have t: "t = str ''null''" using assms by simp
  show ?thesis unfolding t JNull by (simp add: str_def skip_ws_def is_json_ws_def parse_value_def)
next
  case (JNumber n)
  then have t: "t = number_to_string n" using assms by simp
  obtain x xs where x: "number_to_string n = x # xs" "x = 0x2D \<or> is_digit x"
  proof (cases "n < 0")
    case True
    then show ?thesis using that by (simp add: number_to_string_def)
  next
    case False
    obtain y ys where "digits (nat n) = y # ys" using digits_not_empty by (cases "digits (nat n)") auto
    moreover from this have "is_digit y" using digits_are_digits[of "nat n"] by simp
    ultimately show ?thesis using that False by (simp add: number_to_string_def)
  qed
  then have u: "unat x = 0x2D \<or> (48 \<le> unat x \<and> unat x \<le> 57)"
    by (auto simp: is_digit_unat)
  then have p: "\<not> is_json_ws x" "x \<noteq> 0x22" "x \<noteq> 0x6E"
    by (auto simp: is_json_ws_def)
  have s: "\<not> starts_with (x # xs @ c # rest) (str ''null'')" using p(3) by (simp add: str_def)
  have "parse_value (x # xs @ c # rest) = Some (JNumber n, c # rest)"
    using parse_number_to_string[OF assms(2), of n rest] p(2) s
    by (simp add: parse_value_def x(1))
  then show ?thesis using skip_ws_plain[OF p(1)] by (simp add: t x(1) JNumber)
next
  case (JString s)
  then have t: "t = QuoteJSONString s" using assms by simp
  have "parse_value (0x22 # quote_units s @ 0x22 # c # rest) = Some (JString s, c # rest)"
    by (simp add: parse_value_def parse_string_body_quote_units)
  then show ?thesis
    by (simp add: t JString QuoteJSONString_def skip_ws_def is_json_ws_def)
qed

lemma parse_member:
  assumes "serialize_value v = Some t" "c = 0x2C \<or> c = 0x7D"
  shows "parse_members (Suc fuel) obj (member_text (k, v) @ c # rest) =
           (if c = 0x2C then parse_members fuel (set_prop obj k v) rest
            else Some (set_prop obj k v, rest))"
proof -
  have m: "member_text (k, v) @ c # rest = 0x22 # quote_units k @ 0x22 # 0x3A # t @ c # rest"
    using assms(1) by (simp add: member_text_def QuoteJSONString_def)
  have w: "skip_ws (0x22 # x) = 0x22 # x" "skip_ws (0x3A # x) = 0x3A # x"
    "skip_ws (0x2C # x) = 0x2C # x" "skip_ws (0x7D # x) = 0x7D # x" for x
    by (simp_all add: skip_ws_def is_json_ws_def)
  have k: "parse_string_body (quote_units k @ 0x22 # 0x3A # t @ c # rest) = Some (k, 0x3A # t @ c # rest)"
    by (rule parse_string_body_quote_units)
  note v = parse_value_serialized[OF assms, of rest]
  show ?thesis
    using assms(2) unfolding m
    by (auto simp: w k v)
qed

lemma parse_members_serialized:
  assumes "\<forall>p \<in> set qs. snd p \<noteq> JUndefined" "qs \<noteq> []" "length qs \<le> fuel"
  shows "parse_members fuel obj (join_commas (map member_text qs) @ 0x7D # rest) =
           Some (add_props qs obj, rest)"
  using assms
proof (induction qs arbitrary: fuel obj)
  case Nil
  then show ?case by simp
next
  case (Cons q qs)
  obtain k v where q: "q = (k, v)" by (cases q)
  then obtain t where t: "serialize_value v = Some t" using Cons.prems(1) by (cases v) auto
  obtain f where f: "fuel = Suc f" using Cons.prems(3) by (cases fuel) auto
  show ?case
  proof (cases qs)
    case Nil
    have step: "parse_members (Suc f) obj (member_text (k, v) @ 0x7D # rest) = Some (set_prop obj k v, rest)"
      using parse_member[OF t, of "0x7D" f obj k rest] by simp
    have j: "join_commas (map member_text [(k, v)]) @ 0x7D # rest = member_text (k, v) @ 0x7D # rest"
      by simp
    have a: "add_props [(k, v)] obj = set_prop obj k v" by (simp add: add_props_def)
    show ?thesis unfolding Nil q f j step a ..
  next
    case (Cons q' qs')
    have j: "join_commas (map member_text ((k, v) # qs)) @ 0x7D # rest =
        member_text (k, v) @ 0x2C # join_commas (map member_text qs) @ 0x7D # rest"
      using Cons by simp
    have ih: "parse_members f (set_prop obj k v) (join_commas (map member_text qs) @ 0x7D # rest) =
        Some (add_props qs (set_prop obj k v), rest)"
      using Cons.IH[of f "set_prop obj k v"] Cons.prems Cons f by simp
    have step: "parse_members (Suc f) obj (member_text (k, v) @ 0x2C # join_commas (map member_text qs) @ 0x7D # rest)
        = parse_members f (set_prop obj k v) (join_commas (map member_text qs) @ 0x7D # rest)"
      using parse_member[OF t, of "0x2C" f obj k] by simp
    have a: "add_props ((k, v) # qs) obj = add_props qs (set_prop obj k v)"
      by (simp add: add_props_def)
    show ?thesis unfolding q f j step ih a ..
  qed
qed

lemma member_text_not_empty: "member_text p \<noteq> []"
  by (simp add: member_text_def QuoteJSONString_def)

lemma join_commas_length: "\<forall>m \<in> set ms. m \<noteq> [] \<Longrightarrow> length ms \<le> length (join_commas ms)"
proof (induction ms rule: join_commas.induct)
  case (2 m)
  then show ?case by (cases m) simp_all
next
  case (3 m m' ms)
  then show ?case by (cases m) auto
qed simp

lemma join_commas_starts:
  "qs \<noteq> [] \<Longrightarrow> \<exists>x. join_commas (map member_text qs) @ y = 0x22 # x"
proof -
  assume "qs \<noteq> []"
  then obtain q qs' where q: "qs = q # qs'" by (cases qs) auto
  show ?thesis
    by (cases qs') (simp_all add: q member_text_def QuoteJSONString_def)
qed

lemma JSON_parse_stringify: "JSON_parse (JSON_stringify obj) = Some (add_props (defined_props obj) [])"
proof -
  let ?qs = "defined_props obj"
  let ?body = "join_commas (map member_text ?qs)"
  have st: "JSON_stringify obj = 0x7B # ?body @ [0x7D]"
    by (simp add: JSON_stringify_def serialize_members_eq)
  have w: "skip_ws (0x7B # x) = 0x7B # x" for x by (simp add: skip_ws_def is_json_ws_def)
  show ?thesis
  proof (cases "?qs = []")
    case True
    then show ?thesis
      by (simp add: JSON_parse_def st w skip_ws_def is_json_ws_def add_props_def)
  next
    case False
    obtain x where x: "?body @ [0x7D] = 0x22 # x" using join_commas_starts[OF False] by blast
    have u: "\<forall>p \<in> set ?qs. snd p \<noteq> JUndefined" by (simp add: defined_props_def)
    have "length ?qs \<le> length ?body"
      using join_commas_length[of "map member_text ?qs"] member_text_not_empty by auto
    then have l: "length ?qs \<le> length (JSON_stringify obj)" by (simp add: st)
    have p: "parse_members (length (JSON_stringify obj)) [] (?body @ 0x7D # []) =
        Some (add_props ?qs [], [])"
      by (rule parse_members_serialized[OF u False l])
    have s: "skip_ws (0x22 # x) = 0x22 # x" by (simp add: skip_ws_def is_json_ws_def)
    have "JSON_parse (0x7B # ?body @ [0x7D]) = Some (add_props ?qs [])"
      unfolding JSON_parse_def w
      using p s x by (simp add: st skip_ws_def)
    then show ?thesis by (simp add: st)
  qed
qed

lemma set_prop_fresh: "k \<notin> fst ` set obj \<Longrightarrow> set_prop obj k v = obj @ [(k, v)]"
  by (induction obj) auto

lemma add_props_distinct: "distinct (map fst (obj @ qs)) \<Longrightarrow> add_props qs obj = obj @ qs"
proof (induction qs arbitrary: obj)
  case Nil
  then show ?case by (simp add: add_props_def)
next
  case (Cons q qs)
  have f: "fst q \<notin> fst ` set obj" using Cons.prems by auto
  have d: "distinct (map fst ((obj @ [q]) @ qs))" using Cons.prems by simp
  have "add_props (q # qs) obj = add_props qs (set_prop obj (fst q) (snd q))"
    by (simp add: add_props_def)
  also have "\<dots> = add_props qs (obj @ [q])" using set_prop_fresh[OF f, of "snd q"] by simp
  also have "\<dots> = (obj @ [q]) @ qs" by (rule Cons.IH[OF d])
  finally show ?case by simp
qed

lemma distinct_defined_props: "distinct (map fst ps) \<Longrightarrow> distinct (map fst (defined_props ps))"
  by (simp add: defined_props_def distinct_map_filter)

lemma get_prop_missing: "k \<notin> fst ` set ps \<Longrightarrow> get_prop ps k = JUndefined"
  by (induction ps) auto

lemma get_prop_defined_props:
  "distinct (map fst ps) \<Longrightarrow> get_prop (defined_props ps) k = get_prop ps k"
proof (induction ps)
  case Nil
  then show ?case by (simp add: defined_props_def)
next
  case (Cons p ps)
  obtain n v where p: "p = (n, v)" by (cases p)
  have ih: "get_prop (defined_props ps) k = get_prop ps k" using Cons by simp
  have m: "n \<notin> fst ` set ps" using Cons.prems p by auto
  show ?case
  proof (cases "v = JUndefined")
    case True
    then have "defined_props (p # ps) = defined_props ps" by (simp add: defined_props_def p)
    then show ?thesis using ih True p get_prop_missing[OF m] by auto
  next
    case False
    then have "defined_props (p # ps) = p # defined_props ps" by (simp add: defined_props_def p)
    then show ?thesis using ih p by simp
  qed
qed

lemma shareData_distinct: "distinct (map fst (shareData sheet))"
  by (simp add: shareData_def str_def)

lemma JSON_parse_shareData:
  "JSON_parse (JSON_stringify (shareData sheet)) = Some (defined_props (shareData sheet))"
  using add_props_distinct[of "[]" "defined_props (shareData sheet)"]
    distinct_defined_props[OF shareData_distinct, of sheet]
  by (simp add: JSON_parse_stringify)

lemma encodeURIComponent_not_empty: "encodeURIComponent s = Some e \<Longrightarrow> s \<noteq> [] \<Longrightarrow> e \<noteq> []"
  by (cases s) (auto simp: escape_code_point_def utf8_encode_def percent_escape_def
      split: if_splits list.splits)

lemma b64_encode_not_empty: "bs \<noteq> [] \<Longrightarrow> b64_encode bs \<noteq> []"
  by (induction bs rule: b64_encode.induct) simp_all

lemma b64_encode_no_line_terminator:
  assumes "\<forall>b \<in> set bs. b < 256"
  shows "\<forall>c \<in> set (b64_encode bs). \<not> is_line_terminator c"
proof
  fix c assume "c \<in> set (b64_encode bs)"
  then consider v where "v \<in> set (b64_sextets bs)" "c = b64_char v" | "c \<in> set (b64_padding bs)"
    by (auto simp: b64_encode_split)
  then show "\<not> is_line_terminator c"
  proof cases
    case 1
    then have "v < 64" using b64_sextets_bound[OF assms] by blast
    then have "unat c \<notin> {0x0A, 0x0D, 0x2028, 0x2029}"
      unfolding 1(2) by (auto simp: unat_b64_char)
    then show ?thesis by (auto simp: is_line_terminator_def)
  next
    case 2
    then have "c = 0x3D" using b64_padding_cases[of bs] by auto
    then show ?thesis by (simp add: is_line_terminator_def)
  qed
qed

lemma shareMatch_prefix:
  assumes "e \<noteq> []" "\<forall>c \<in> set e. \<not> is_line_terminator c"
  shows "shareMatch (str ''#share-'' @ e) = Some e"
proof -
  have "starts_with (str ''#share-'' @ e) (str ''#share-'')" by (simp add: starts_with_iff)
  moreover have "drop 7 (str ''#share-'' @ e) = e" by (simp add: str_def)
  ultimately show ?thesis using assms by (simp add: shareMatch_def Let_def)
qed

subsection \<open>Evaluation on the example pages\<close>

lemmas eval_defs = page0_def page1_def sample_sheet_def empty_sheet_def str_def trim_def
  trim_start_def is_white_space_def valid_url_def

lemmas run_defs = startTranscribe_def try_block_def catch_block_def finally_block_def
  showDemoResult_def saveToLocalHistory_def displayResult_def alloc_def demoData_def
  showProgress_def hideProgress_def showToast_def selectType_def key_offset_of_def
  or_else_def truthy_def text_of_def tempo_or_default_def property_key_def Let_def

subsection \<open>The claims\<close>



text \<open>
  C7. \<open>displayResult\<close> reads the fields of the result object and writes none: after the
  call, also one that throws, every object of the store is what it was.
\<close>

theorem displayResult_leaves_object:
  "heap (final_state (displayResult data s)) = heap s"
  by (simp add: displayResult_def Let_def split: option.splits)

theorem displayResult_leaves_object_witness:
  "heap (final_state (displayResult (Some 0) page1)) 0 = sample_sheet"
  using displayResult_leaves_object [of "Some 0" page1]
  by (simp add: page1_def)

text \<open>
  C6. Rendering is deterministic. Two calls of \<open>displayResult\<close> on equal result objects
  show the same content, whatever the two pages were before; two calls of
  \<open>showDemoResult\<close> with the same current type show the same content, whatever the link,
  the time and the pages.
\<close>

theorem rendering_deterministic:
  "(heap s1 r1 = heap s2 r2 \<longrightarrow>
      sheet_content (final_state (displayResult (Some r1) s1)) =
      sheet_content (final_state (displayResult (Some r2) s2))) \<and>
   (currentType s1 = currentType s2 \<longrightarrow>
      sheet_content (final_state (showDemoResult url1 now1 stamp1 s1)) =
      sheet_content (final_state (showDemoResult url2 now2 stamp2 s2)))"
  by (simp add: displayResult_content showDemoResult_content)

theorem rendering_deterministic_witness:
  "sheet_content (final_state (displayResult (Some 0) page1)) =
   sheet_content (final_state (displayResult (Some 7) (showToast (str ''x'') page1))) \<and>
   sheet_content (final_state (showDemoResult (str ''a'') 1 (str ''t1'') page1)) =
   sheet_content (final_state (showDemoResult (str ''b'') 2 (str ''t2'') (showToast (str ''x'') page1)))"
  using rendering_deterministic [where ?s1.0 = page1 and ?r1.0 = 0
      and ?s2.0 = "showToast (str ''x'') page1" and ?r2.0 = 7
      and ?url1.0 = "str ''a''" and ?now1.0 = 1 and ?stamp1.0 = "str ''t1''"
      and ?url2.0 = "str ''b''" and ?now2.0 = 2 and ?stamp2.0 = "str ''t2''"]
  by (simp add: page1_def showToast_def)

text \<open>
  C10. When the link typed in is empty after trimming, or contains neither
  \<^verbatim>\<open>youtube.com\<close> nor \<^verbatim>\<open>youtu.be\<close>, \<open>startTranscribe\<close> returns a page that differs from
  the one before only in the toast, which shows one of the two messages, and in the
  focus of the input: no request is sent and the displayed result is unchanged.
\<close>

theorem startTranscribe_input_guard:
  assumes "trim (url_input_value s) = [] \<or>
           (\<not> js_includes (url_input_value s) (str ''youtube.com'') \<and>
            \<not> js_includes (url_input_value s) (str ''youtu.be''))"
  shows "\<exists>m f. m \<in> {toast_enter_url, toast_invalid_url} \<and>
           startTranscribe out now stamp s =
             Returns (s\<lparr>url_input_focused := f, toast_text := m, toast_shown := True\<rparr>)"
proof (cases "trim (url_input_value s) = []")
  case True
  then have "startTranscribe out now stamp s =
      Returns (s\<lparr>url_input_focused := True, toast_text := toast_enter_url, toast_shown := True\<rparr>)"
    by (simp add: startTranscribe_def showToast_def)
  then show ?thesis by blast
next
  case False
  then have "\<not> js_includes (trim (url_input_value s)) (str ''youtube.com'')"
    and "\<not> js_includes (trim (url_input_value s)) (str ''youtu.be'')"
    using assms js_includes_trim by blast+
  then have "startTranscribe out now stamp s =
      Returns (s\<lparr>url_input_focused := url_input_focused s, toast_text := toast_invalid_url,
                 toast_shown := True\<rparr>)"
    using False by (simp add: startTranscribe_def showToast_def)
  then show ?thesis by blast
qed

theorem startTranscribe_input_guard_witness:
  "startTranscribe (OkBody sample_sheet) 0 [] (page1\<lparr>url_input_value := str ''   ''\<rparr>) =
     Returns (page1\<lparr>url_input_value := str ''   '', url_input_focused := True,
                toast_text := toast_enter_url, toast_shown := True\<rparr>) \<and>
   startTranscribe (OkBody sample_sheet) 0 [] (page1\<lparr>url_input_value := str ''https://vimeo.com/1''\<rparr>) =
     Returns (page1\<lparr>url_input_value := str ''https://vimeo.com/1'',
                toast_text := toast_invalid_url, toast_shown := True\<rparr>)"
proof -
  have a: "trim (url_input_value (page1\<lparr>url_input_value := str ''   ''\<rparr>)) = [] \<or>
           (\<not> js_includes (url_input_value (page1\<lparr>url_input_value := str ''   ''\<rparr>)) (str ''youtube.com'') \<and>
            \<not> js_includes (url_input_value (page1\<lparr>url_input_value := str ''   ''\<rparr>)) (str ''youtu.be''))"
    by (simp add: eval_defs)
  have b: "trim (url_input_value (page1\<lparr>url_input_value := str ''https://vimeo.com/1''\<rparr>)) = [] \<or>
           (\<not> js_includes (url_input_value (page1\<lparr>url_input_value := str ''https://vimeo.com/1''\<rparr>)) (str ''youtube.com'') \<and>
            \<not> js_includes (url_input_value (page1\<lparr>url_input_value := str ''https://vimeo.com/1''\<rparr>)) (str ''youtu.be''))"
    by (simp add: eval_defs)
  have ne: "toast_enter_url \<noteq> toast_invalid_url"
    by (simp add: toast_enter_url_def toast_invalid_url_def)
  show ?thesis
    using startTranscribe_input_guard [OF a, of "OkBody sample_sheet" 0 "[]"]
      startTranscribe_input_guard [OF b, of "OkBody sample_sheet" 0 "[]"] ne
    by (auto simp: startTranscribe_def showToast_def eval_defs Let_def)
qed



text \<open>
  C9, as the code has it. When the stored history is absent, empty or a JSON array,
  \<open>saveToLocalHistory\<close> stores the array with the new record at index 0, cut to 50
  records; when the array held 50 records, the last (oldest) one is dropped. Stored text
  that is not a JSON array is a different matter: there the call throws and stores
  nothing, as the counterexample shows.
\<close>

theorem saveToLocalHistory_invariant:
  assumes "parse_history (history_item s) = Some h"
  shows "\<exists>h'. saveToLocalHistory r s = Returns (s\<lparr>history_item := Some (Records h')\<rparr>) \<and>
           h' = take 50 (heap s r # h) \<and> h' ! 0 = heap s r \<and> length h' \<le> 50 \<and>
           (length h = 50 \<longrightarrow> h' = heap s r # butlast h)"
proof -
  have "take 50 (heap s r # h) = heap s r # butlast h" if "length h = 50"
    using that by (simp add: take_Cons' butlast_conv_take)
  then show ?thesis using assms
    by (auto simp: saveToLocalHistory_def Let_def take_Cons')
qed

theorem saveToLocalHistory_invariant_witness:
  "parse_history (history_item (page1\<lparr>history_item := Some (Records (replicate 50 empty_sheet))\<rparr>)) =
     Some (replicate 50 empty_sheet) \<and>
   saveToLocalHistory 0 (page1\<lparr>history_item := Some (Records (replicate 50 empty_sheet))\<rparr>) =
     Returns (page1\<lparr>history_item := Some (Records (sample_sheet # replicate 49 empty_sheet))\<rparr>)"
proof -
  have h: "parse_history (history_item (page1\<lparr>history_item := Some (Records (replicate 50 empty_sheet))\<rparr>)) =
     Some (replicate 50 empty_sheet)" by simp
  have b: "butlast (replicate 50 empty_sheet) = replicate 49 empty_sheet"
    by (simp add: butlast_conv_take)
  show ?thesis
    using h b saveToLocalHistory_invariant [OF h, of 0]
    by (auto simp: page1_def)
qed

theorem saveToLocalHistory_counterexample:
  "saveToLocalHistory 0 (page1\<lparr>history_item := Some NotArray\<rparr>) =
     Throws (page1\<lparr>history_item := Some NotArray\<rparr>)"
  by (simp add: saveToLocalHistory_def)







text \<open>
  C5, as the code has it. For every result with tempo 120, key C and type
  \<^verbatim>\<open>chord_sheet\<close>, \<open>displayResult\<close> shows the tempo as the quarter note sign followed by
  \<^verbatim>\<open> = 120\<close>, the key as C with the label of the major mode, the chord sheet's
  type label, and the content as the result gives it. What the content's melody line
  begins with is up to the result: the counterexample's begins with 5. The demo result
  of the chord sheet type has the same header, and its first melody line begins with
  the digit 1 without octave mark.
\<close>

theorem chord_sheet_header:
  "(tempo (heap s r) = Some 120 \<and> key (heap s r) = Some (str ''C'') \<and>
    output_type (heap s r) = Some (str ''chord_sheet'') \<longrightarrow>
      result_tempo (final_state (displayResult (Some r) s)) = [0x2669] @ str '' = 120'' \<and>
      result_key (final_state (displayResult (Some r) s)) = str ''C '' @ [0x5927, 0x8ABF] \<and>
      result_type (final_state (displayResult (Some r) s)) = label_chord_sheet \<and>
      sheet_content (final_state (displayResult (Some r) s)) = text_of (content (heap s r))) \<and>
   (currentType s = str ''chord_sheet'' \<longrightarrow>
      result_tempo (final_state (showDemoResult url now stamp s)) = [0x2669] @ str '' = 120'' \<and>
      result_key (final_state (showDemoResult url now stamp s)) = str ''C '' @ [0x5927, 0x8ABF] \<and>
      result_type (final_state (showDemoResult url now stamp s)) = label_chord_sheet \<and>
      sheet_content (final_state (showDemoResult url now stamp s)) = demoChordSheet \<and>
      begins_with_plain_one
        (hd (melody_lines (sheet_content (final_state (showDemoResult url now stamp s))))))"
proof -
  have n: "number_to_string 120 = str ''120''"
    by (simp add: number_to_string_def digits.simps str_def)
  have l: "or_else (typeLabels (str ''chord_sheet'')) [] = label_chord_sheet"
    by (simp add: typeLabels_def or_else_def label_chord_sheet_def)
  have c: "str ''C'' \<noteq> []" by (simp add: str_def)
  have 1: "result_tempo (final_state (displayResult (Some r) s)) = [0x2669] @ str '' = 120'' \<and>
      result_key (final_state (displayResult (Some r) s)) = str ''C '' @ [0x5927, 0x8ABF] \<and>
      result_type (final_state (displayResult (Some r) s)) = label_chord_sheet \<and>
      sheet_content (final_state (displayResult (Some r) s)) = text_of (content (heap s r))"
    if "tempo (heap s r) = Some 120" "key (heap s r) = Some (str ''C'')"
       "output_type (heap s r) = Some (str ''chord_sheet'')" for s r
    using that n l c
    by (simp add: displayResult_def Let_def tempo_or_default_def property_key_def
          tempo_prefix_def key_suffix_def or_else_def str_def)
  have m: "begins_with_plain_one (hd (melody_lines demoChordSheet))"
    by (simp add: melody_lines_def demoChordSheet_def str_def is_melody_line_def first_symbol_def
          is_digit_def begins_with_plain_one_def)
  have d: "demoSheets (str ''chord_sheet'') = Some demoChordSheet"
    by (simp add: demoSheets_def)
  have dn: "demoChordSheet \<noteq> []" by (simp add: demoChordSheet_def)
  have 2: "result_tempo (final_state (showDemoResult url now stamp s)) = [0x2669] @ str '' = 120'' \<and>
      result_key (final_state (showDemoResult url now stamp s)) = str ''C '' @ [0x5927, 0x8ABF] \<and>
      result_type (final_state (showDemoResult url now stamp s)) = label_chord_sheet \<and>
      sheet_content (final_state (showDemoResult url now stamp s)) = demoChordSheet"
    if ct: "currentType s = str ''chord_sheet''"
  proof -
    let ?s1 = "snd (alloc (demoData url now stamp (currentType s)) s)"
    let ?r = "next_ref s"
    have h: "heap ?s1 ?r = demoData url now stamp (str ''chord_sheet'')"
      using ct by (simp add: alloc_def)
    have hs: "tempo (heap ?s1 ?r) = Some 120" "key (heap ?s1 ?r) = Some (str ''C'')"
       "output_type (heap ?s1 ?r) = Some (str ''chord_sheet'')"
       "text_of (content (heap ?s1 ?r)) = demoChordSheet"
      using d dn ct by (simp_all add: alloc_def demoData_def or_else_def text_of_def)
    have fs: "final_state (showDemoResult url now stamp s) =
       (let s2 = final_state (displayResult (Some ?r) ?s1) in
          final_state (saveToLocalHistory ?r (s2\<lparr>currentResult := Some ?r\<rparr>)))"
      using displayResult_Some_returns[of ?r ?s1]
      by (cases "displayResult (Some ?r) ?s1") (simp_all add: showDemoResult_def alloc_def Let_def)
    have sv: "result_tempo (final_state (saveToLocalHistory q x)) = result_tempo x"
       "result_key (final_state (saveToLocalHistory q x)) = result_key x"
       "result_type (final_state (saveToLocalHistory q x)) = result_type x"
       "sheet_content (final_state (saveToLocalHistory q x)) = sheet_content x" for q x
      by (simp_all add: saveToLocalHistory_def Let_def split: option.splits)
    show ?thesis using 1[OF hs(1,2,3)] hs(4) by (simp add: fs Let_def sv)
  qed
  show ?thesis using 1 2 m by simp
qed

theorem chord_sheet_header_witness:
  "tempo (heap page1 0) = Some 120 \<and> key (heap page1 0) = Some (str ''C'') \<and>
   output_type (heap page1 0) = Some (str ''chord_sheet'') \<and>
   currentType page1 = str ''chord_sheet'' \<and>
   result_tempo (final_state (displayResult (Some 0) page1)) = [0x2669] @ str '' = 120'' \<and>
   result_key (final_state (displayResult (Some 0) page1)) = str ''C '' @ [0x5927, 0x8ABF] \<and>
   begins_with_plain_one
     (hd (melody_lines (sheet_content (final_state (showDemoResult (str ''u'') 0 [] page1)))))"
proof -
  have h: "tempo (heap page1 0) = Some 120" "key (heap page1 0) = Some (str ''C'')"
    "output_type (heap page1 0) = Some (str ''chord_sheet'')"
    "currentType page1 = str ''chord_sheet''"
    by (simp_all add: page1_def page0_def sample_sheet_def)
  show ?thesis
    using h chord_sheet_header [of page1 0 "str ''u''" 0 "[]"]
    by blast
qed

theorem chord_sheet_melody_counterexample:
  "tempo (heap page1 0) = Some 120 \<and> key (heap page1 0) = Some (str ''C'') \<and>
   output_type (heap page1 0) = Some (str ''chord_sheet'') \<and>
   melody_lines (sheet_content (final_state (displayResult (Some 0) page1))) =
     [str ''  5   -   -   -''] \<and>
   \<not> begins_with_plain_one (str ''  5   -   -   -'')"
  by (simp add: run_defs eval_defs melody_lines_def is_melody_line_def first_symbol_def
        is_digit_def begins_with_plain_one_def)

text \<open>
  C8. For every sheet, the encoding of \<open>shareSheet\<close> succeeds; the link's fragment is
  \<^verbatim>\<open>#share-\<close> and the encoded text, unless the page is on GitHub Pages and the sheet has
  an id; that fragment is matched by \<open>handleHashNavigation\<close> with the encoded text as its
  group, and the decoding of the group gives back the object \<open>shareData\<close>:
  the properties that are not undefined, in their order, so that each of the five fields
  (and any other) reads the same in the decoded object as in \<open>shareData\<close>.
\<close>

theorem share_link_round_trip:
  "\<exists>e. share_encode (shareData sheet) = Some e \<and>
        shareUrl_fragment is_github_pages sheet =
          (if is_github_pages \<and> truthy (sheet_id sheet)
           then Some (str ''#sheet-'' @ text_of (sheet_id sheet))
           else Some (str ''#share-'' @ e)) \<and>
        shareMatch (str ''#share-'' @ e) = Some e \<and>
        share_decode e = Some (defined_props (shareData sheet)) \<and>
        (\<forall>k. get_prop (defined_props (shareData sheet)) k = get_prop (shareData sheet) k)"
proof -
  let ?obj = "shareData sheet"
  obtain u where u: "encodeURIComponent (JSON_stringify ?obj) = Some u"
    using encodeURIComponent_well_formed[OF well_formed_stringify] by blast
  have ascii: "\<forall>c \<in> set u. unat c < 0x80" using encodeURIComponent_ascii[OF u] .
  then have le: "\<forall>c \<in> set u. c \<le> 0xFF" by (auto simp: word_le_nat_alt)
  define e where "e = b64_encode (map unat u)"
  have b: "btoa u = Some e" using le by (simp add: btoa_def e_def)
  have enc: "share_encode ?obj = Some e" by (simp add: share_encode_def u b)
  have dec: "share_decode e = Some (defined_props ?obj)"
    by (simp add: share_decode_def atob_btoa[OF b] decodeURIComponent_encodeURIComponent[OF u]
          JSON_parse_shareData)
  have "JSON_stringify ?obj \<noteq> []" by (simp add: JSON_stringify_def)
  then have "u \<noteq> []" using encodeURIComponent_not_empty[OF u] by simp
  then have ne: "e \<noteq> []" by (simp add: e_def b64_encode_not_empty)
  have "\<forall>b \<in> set (map unat u). b < 256" using ascii by auto
  then have nl: "\<forall>c \<in> set e. \<not> is_line_terminator c"
    unfolding e_def by (rule b64_encode_no_line_terminator)
  have frag: "shareUrl_fragment is_github_pages sheet =
      (if is_github_pages \<and> truthy (sheet_id sheet)
       then Some (str ''#sheet-'' @ text_of (sheet_id sheet))
       else Some (str ''#share-'' @ e))"
    by (simp add: shareUrl_fragment_def enc)
  show ?thesis
    using enc frag dec shareMatch_prefix[OF ne nl] get_prop_defined_props[OF shareData_distinct]
    by blast
qed

theorem share_link_round_trip_witness:
  "share_encode (shareData shared_sheet) =
     Some (str ''JTdCJTIydGl0bGUlMjIlM0ElMjIlRTIlOTklQTklRjAlOUYlOEUlQjUlNUMlMjIlMjIlMkMlMjJjb250ZW50JTIyJTNBJTIyMSUyMC0lNUNuJTIyJTJDJTIydGVtcG8lMjIlM0ExMjAlMkMlMjJvdXRwdXRfdHlwZSUyMiUzQSUyMmNob3JkX3NoZWV0JTIyJTdE'') \<and>
   share_decode (str ''JTdCJTIydGl0bGUlMjIlM0ElMjIlRTIlOTklQTklRjAlOUYlOEUlQjUlNUMlMjIlMjIlMkMlMjJjb250ZW50JTIyJTNBJTIyMSUyMC0lNUNuJTIyJTJDJTIydGVtcG8lMjIlM0ExMjAlMkMlMjJvdXRwdXRfdHlwZSUyMiUzQSUyMmNob3JkX3NoZWV0JTIyJTdE'') =
     Some [(str ''title'', JString [0x2669, 0xD83C, 0xDFB5, 0x22]),
           (str ''content'', JString (str ''1 -'' @ [0x0A])),
           (str ''tempo'', JNumber 120),
           (str ''output_type'', JString (str ''chord_sheet''))]"
proof -
  have enc: "share_encode (shareData shared_sheet) =
     Some (str ''JTdCJTIydGl0bGUlMjIlM0ElMjIlRTIlOTklQTklRjAlOUYlOEUlQjUlNUMlMjIlMjIlMkMlMjJjb250ZW50JTIyJTNBJTIyMSUyMC0lNUNuJTIyJTJDJTIydGVtcG8lMjIlM0ExMjAlMkMlMjJvdXRwdXRfdHlwZSUyMiUzQSUyMmNob3JkX3NoZWV0JTIyJTdE'')"
    by (simp add: share_encode_def shareData_def shared_sheet_def empty_sheet_def string_value_def
        number_value_def JSON_stringify_def QuoteJSONString_def escape_unit_def unicode_escape_def
        is_high_surrogate_def is_low_surrogate_def number_to_string_def digits.simps
        uri_unreserved_def is_alnum_def escape_code_point_def utf8_encode_def percent_escape_def
        hex_upper_def code_point_def btoa_def b64_char_def str_def)
  have obj: "defined_props (shareData shared_sheet) =
     [(str ''title'', JString [0x2669, 0xD83C, 0xDFB5, 0x22]),
      (str ''content'', JString (str ''1 -'' @ [0x0A])),
      (str ''tempo'', JNumber 120),
      (str ''output_type'', JString (str ''chord_sheet''))]"
    by (simp add: defined_props_def shareData_def shared_sheet_def empty_sheet_def
          string_value_def number_value_def)
  show ?thesis
    using share_link_round_trip [of shared_sheet False] enc obj by auto
qed

end
